theory Spec2Isabelle
  imports Complex_Main "HOL-Library.Sublist"
begin

section \<open>Strings and numbers of the service\<close>

text \<open>
  A JavaScript string is a sequence of UTF-16 code units; a code unit is modelled by its
  number.  \<open>js\<close> turns an ASCII literal into such a string.  Numbers are the reals: the
  scores of the service are sums and products of a few small constants, and rounding is
  not modelled.
\<close>

type_synonym js_string = "nat list"

definition js :: "string \<Rightarrow> js_string" where
  "js s = map of_char s"

definition SPACE :: nat where
  "SPACE = 32"

text \<open>\<open>String.prototype.toLowerCase\<close>, on the capitals of ASCII (U+0041 to U+005A), of
  Latin-1 (U+00C0 to U+00DE without the multiplication sign U+00D7) and of basic
  Cyrillic (U+0400 to U+042F).  Every other code unit is left as it is: the remaining
  case mappings of Unicode, among them the ones that depend on the context or change
  the length of the string, are outside the model.\<close>

definition lower_unit :: "nat \<Rightarrow> nat" where
  "lower_unit c =
     (if 65 \<le> c \<and> c \<le> 90 then c + 32
      else if 192 \<le> c \<and> c \<le> 222 \<and> c \<noteq> 215 then c + 32
      else if 1024 \<le> c \<and> c \<le> 1039 then c + 80
      else if 1040 \<le> c \<and> c \<le> 1071 then c + 32
      else c)"

definition toLowerCase :: "js_string \<Rightarrow> js_string" where
  "toLowerCase s = map lower_unit s"

text \<open>The class \<open>\s\<close> of a JavaScript regular expression, which is also what
  \<open>trim\<close> strips.\<close>

definition is_space :: "nat \<Rightarrow> bool" where
  "is_space c \<longleftrightarrow>
     (9 \<le> c \<and> c \<le> 13) \<or> c = 32 \<or> c = 160 \<or> c = 5760 \<or> (8192 \<le> c \<and> c \<le> 8202) \<or>
     c = 8232 \<or> c = 8233 \<or> c = 8239 \<or> c = 8287 \<or> c = 12288 \<or> c = 65279"

definition trim :: "js_string \<Rightarrow> js_string" where
  "trim s = rev (dropWhile is_space (rev (dropWhile is_space s)))"

text \<open>\<open>s.startsWith(t)\<close>, \<open>s.endsWith(t)\<close> and \<open>s.includes(t)\<close> (\<open>includes\<close> is a keyword of Isabelle).\<close>

definition startsWith :: "js_string \<Rightarrow> js_string \<Rightarrow> bool" where
  "startsWith s t = prefix t s"

definition endsWith :: "js_string \<Rightarrow> js_string \<Rightarrow> bool" where
  "endsWith s t = suffix t s"

definition js_includes :: "js_string \<Rightarrow> js_string \<Rightarrow> bool" where
  "js_includes s t = sublist t s"

text \<open>\<open>x || d\<close> on an optional number: \<open>undefined\<close> and \<open>0\<close> are falsy.\<close>

definition num_or :: "real option \<Rightarrow> real \<Rightarrow> real" where
  "num_or x d = (case x of None \<Rightarrow> d | Some v \<Rightarrow> if v = 0 then d else v)"

section \<open>The relevance score\<close>

text \<open>
  \<^verbatim>\<open>
  function calculateSimpleScore(name: string, query: string, fuseScore: number) {
    let score = (1 - fuseScore) * 100;
    if (name === query) return 100000;
    if (name.startsWith(query)) return 50000 + score;
    if (name.includes(` ${query} `) || name.endsWith(` ${query}`)) {
      return 20000 + score;
    }
    if (name.includes(query)) return 10000 + score;
    if (name.length < 30) score += (30 - name.length) * 5;
    return score;
  }
  \<close>
\<close>

definition calculateSimpleScore :: "js_string \<Rightarrow> js_string \<Rightarrow> real \<Rightarrow> real" where
  "calculateSimpleScore name query fuseScore =
     (let score = (1 - fuseScore) * 100 in
      if name = query then 100000
      else if startsWith name query then 50000 + score
      else if js_includes name (SPACE # query @ [SPACE]) \<or> endsWith name (SPACE # query)
        then 20000 + score
      else if js_includes name query then 10000 + score
      else if length name < 30 then score + (30 - real (length name)) * 5
      else score)"

text \<open>The five tiers of the score, by the branch of \<open>calculateSimpleScore\<close> that returns.\<close>

datatype tier = Fuzzy | Substring | WholeWord | Prefix | Exact

definition tier_of :: "js_string \<Rightarrow> js_string \<Rightarrow> tier" where
  "tier_of name query =
     (if name = query then Exact
      else if startsWith name query then Prefix
      else if js_includes name (SPACE # query @ [SPACE]) \<or> endsWith name (SPACE # query)
        then WholeWord
      else if js_includes name query then Substring
      else Fuzzy)"

fun tier_rank :: "tier \<Rightarrow> nat" where
  "tier_rank Fuzzy = 0"
| "tier_rank Substring = 1"
| "tier_rank WholeWord = 2"
| "tier_rank Prefix = 3"
| "tier_rank Exact = 4"

text \<open>The band of scores of each tier, for a fuzzy quality between 0 and 1.\<close>

fun tier_lo :: "tier \<Rightarrow> real" where
  "tier_lo Fuzzy = 0"
| "tier_lo Substring = 10000"
| "tier_lo WholeWord = 20000"
| "tier_lo Prefix = 50000"
| "tier_lo Exact = 100000"

fun tier_hi :: "tier \<Rightarrow> real" where
  "tier_hi Fuzzy = 250"
| "tier_hi Substring = 10100"
| "tier_hi WholeWord = 20100"
| "tier_hi Prefix = 50100"
| "tier_hi Exact = 100000"

subsection \<open>The scoring contract as the specification words it\<close>

text \<open>The query occurs in the name as a whole word: an occurrence that has the start of
  the name or a space before it, and the end of the name or a space after it.\<close>

definition whole_word :: "js_string \<Rightarrow> js_string \<Rightarrow> bool" where
  "whole_word name query \<longleftrightarrow>
     (\<exists>ps \<in> set (prefixes name). \<exists>ss \<in> set (suffixes name).
        name = ps @ query @ ss \<and>
        (ps = [] \<or> last ps = SPACE) \<and> (ss = [] \<or> hd ss = SPACE))"

definition spec_baseline :: "real \<Rightarrow> real" where
  "spec_baseline q = (1 - q) * 100"

definition spec_score :: "js_string \<Rightarrow> js_string \<Rightarrow> real \<Rightarrow> real" where
  "spec_score name query q =
     (if name = query then 100000
      else if prefix query name then 50000 + spec_baseline q
      else if whole_word name query then 20000 + spec_baseline q
      else if sublist query name then 10000 + spec_baseline q
      else spec_baseline q + (if length name < 30 then (30 - real (length name)) * 5 else 0))"

section \<open>The catalog\<close>

text \<open>An entry of the application list as the snapshot file or the catalog source gives
  it; \<open>raw_name = None\<close> is an entry without a \<open>name\<close> string, on which
  \<open>g.name.toLowerCase()\<close> raises a TypeError.\<close>

record raw_app =
  raw_appid :: int
  raw_name :: "js_string option"

record app =
  appid :: int
  name :: js_string
  lowerName :: js_string
  searchName :: js_string

datatype failure = ReadFailed | RequestFailed | WriteFailed | TypeError | HttpError nat | NoResponse

text \<open>\<open>.replace(/[(R)(TM)(C):]/g, "")\<close>: the code units of the registered sign, the trade
  mark sign, the copyright sign and the colon are removed.\<close>

definition strip_marks :: "js_string \<Rightarrow> js_string" where
  "strip_marks s = filter (\<lambda>c. c \<noteq> 174 \<and> c \<noteq> 8482 \<and> c \<noteq> 169 \<and> c \<noteq> 58) s"

text \<open>\<open>.replace(/\s+/g, " ")\<close>: every maximal run of white space becomes one space.\<close>

function collapse_spaces :: "js_string \<Rightarrow> js_string" where
  "collapse_spaces [] = []"
| "collapse_spaces (c # cs) =
     (if is_space c then SPACE # collapse_spaces (dropWhile is_space cs)
      else c # collapse_spaces cs)"
  by pat_completeness auto
termination
  by (relation "measure length") (auto simp: less_Suc_eq_le length_dropWhile_le)

text \<open>
  \<^verbatim>\<open>
  function prepareApps(appList: any[]) {
    appList.forEach((g: any) => {
      g.lowerName = g.name.toLowerCase();
      g.searchName = g.name.toLowerCase().replace(/[...]/g, "").replace(/\s+/g, " ").trim();
    });
    return appList;
  }
  \<close>
\<close>

definition prepare :: "raw_app \<Rightarrow> failure + app" where
  "prepare g =
     (case raw_name g of
        None \<Rightarrow> Inl TypeError
      | Some n \<Rightarrow>
          Inr \<lparr>appid = raw_appid g, name = n, lowerName = toLowerCase n,
               searchName = trim (collapse_spaces (strip_marks (toLowerCase n)))\<rparr>)"

fun prepareApps :: "raw_app list \<Rightarrow> failure + app list" where
  "prepareApps [] = Inr []"
| "prepareApps (g # gs) =
     (case prepare g of
        Inl e \<Rightarrow> Inl e
      | Inr a \<Rightarrow> (case prepareApps gs of Inl e \<Rightarrow> Inl e | Inr as \<Rightarrow> Inr (a # as)))"

text \<open>The state of the module: \<open>steamApps\<close>, \<open>fuseInstance\<close> (an index is identified with
  the list it was built from) and \<open>appListReady\<close>.\<close>

record server =
  steamApps :: "app list"
  fuseInstance :: "app list option"
  appListReady :: bool

definition createFuseIndex :: "app list \<Rightarrow> app list" where
  "createFuseIndex apps = apps"

text \<open>What the outside world answers during one run of \<open>initAppList\<close>: the parsed
  snapshot file (\<open>None\<close>: the file cannot be read or parsed), the list of the catalog
  source (\<open>None\<close>: the request fails), and whether the snapshot can be written.\<close>

record catalog_io =
  snapshot_file :: "raw_app list option"
  app_list_response :: "raw_app list option"
  write_ok :: bool

definition activate :: "app list \<Rightarrow> server \<Rightarrow> server" where
  "activate apps s =
     s\<lparr>steamApps := apps, fuseInstance := Some (createFuseIndex apps), appListReady := True\<rparr>"

text \<open>The inner \<open>try\<close> block of \<open>initAppList\<close>: the snapshot path.  It assigns nothing
  before \<open>prepareApps\<close> has returned.\<close>

definition snapshot_path :: "catalog_io \<Rightarrow> server \<Rightarrow> failure + server" where
  "snapshot_path io s =
     (case snapshot_file io of
        None \<Rightarrow> Inl ReadFailed
      | Some raw \<Rightarrow>
          (case prepareApps raw of Inl e \<Rightarrow> Inl e | Inr apps \<Rightarrow> Inr (activate apps s)))"

text \<open>The rest of the outer \<open>try\<close> block: the fetch path.  The state it leaves is returned
  with the exception, if any: the snapshot is written after the new list is activated.\<close>

definition fetch_path :: "catalog_io \<Rightarrow> server \<Rightarrow> failure option \<times> server" where
  "fetch_path io s =
     (case app_list_response io of
        None \<Rightarrow> (Some RequestFailed, s)
      | Some raw \<Rightarrow>
          (case prepareApps raw of
             Inl e \<Rightarrow> (Some e, s)
           | Inr apps \<Rightarrow> (if write_ok io then None else Some WriteFailed, activate apps s)))"

text \<open>\<open>initAppList\<close>; \<open>Inl\<close> would be an exception that reaches the caller.\<close>

definition initAppList :: "catalog_io \<Rightarrow> server \<Rightarrow> failure + server" where
  "initAppList io s =
     (case snapshot_path io s of
        Inr s' \<Rightarrow> Inr s'
      | Inl _ \<Rightarrow>
          (case fetch_path io s of
             (None, s') \<Rightarrow> Inr s'
           | (Some _, s') \<Rightarrow> Inr (s'\<lparr>appListReady := False\<rparr>)))"

definition getAppList :: "catalog_io \<Rightarrow> server \<Rightarrow> failure + (app list \<times> server)" where
  "getAppList io s =
     (if steamApps s = [] then
        (case initAppList io s of Inl e \<Rightarrow> Inl e | Inr s' \<Rightarrow> Inr (steamApps s', s'))
      else Inr (steamApps s, s))"

section \<open>The cache\<close>

text \<open>
  Modelled from the spec: the cache library is not part of the repository.  An entry
  keeps its value, the time it was stored at (in milliseconds) and its lifetime (in
  seconds); a reader sees it only before it expires.  A write without a lifetime takes
  the \<open>stdTTL\<close> the cache was created with.
\<close>

record 'v entry =
  val :: 'v
  stored :: nat
  ttl :: nat

type_synonym ('k, 'v) cache = "'k \<rightharpoonup> 'v entry"

definition stdTTL :: nat where
  "stdTTL = 18000"

definition live :: "nat \<Rightarrow> 'v entry \<Rightarrow> bool" where
  "live now e \<longleftrightarrow> now < stored e + ttl e * 1000"

definition cache_get :: "('k, 'v) cache \<Rightarrow> nat \<Rightarrow> 'k \<Rightarrow> 'v option" where
  "cache_get c now k =
     (case c k of None \<Rightarrow> None | Some e \<Rightarrow> if live now e then Some (val e) else None)"

definition cache_set :: "('k, 'v) cache \<Rightarrow> nat \<Rightarrow> 'k \<Rightarrow> 'v \<Rightarrow> nat option \<Rightarrow> ('k, 'v) cache" where
  "cache_set c now k v t =
     c(k \<mapsto> \<lparr>val = v, stored = now, ttl = (case t of None \<Rightarrow> stdTTL | Some n \<Rightarrow> n)\<rparr>)"

subsection \<open>Get or compute\<close>

text \<open>The values of \<open>getCachedOrFetch\<close> have the type \<open>any\<close>: JSON values and
  \<open>undefined\<close>, with the truthiness of JavaScript.\<close>

datatype json =
  JUndefined | JNull | JBool bool | JNum real | JStr js_string
  | JArr "json list" | JObj "(js_string \<times> json) list"

fun truthy :: "json \<Rightarrow> bool" where
  "truthy JUndefined = False"
| "truthy JNull = False"
| "truthy (JBool b) = b"
| "truthy (JNum x) = (x \<noteq> 0)"
| "truthy (JStr s) = (s \<noteq> [])"
| "truthy (JArr _) = True"
| "truthy (JObj _) = True"

text \<open>
  \<^verbatim>\<open>
  async function getCachedOrFetch(key: string, fetchFn: () => Promise<any>) {
    const cached = cache.get(key);
    if (cached) return cached;
    const data = await fetchFn();
    cache.set(key, data);
    return data;
  }
  \<close>
  The result is the outcome (\<open>Inl\<close>: the exception of \<open>fetchFn\<close>, which propagates), the
  cache afterwards and the number of calls of \<open>fetchFn\<close>.
\<close>

definition getCachedOrFetch ::
  "(js_string, json) cache \<Rightarrow> nat \<Rightarrow> js_string \<Rightarrow> (unit \<Rightarrow> failure + json) \<Rightarrow>
     (failure + json) \<times> (js_string, json) cache \<times> nat" where
  "getCachedOrFetch c now key fetchFn =
     (let cached = (case cache_get c now key of None \<Rightarrow> JUndefined | Some v \<Rightarrow> v) in
      if truthy cached then (Inr cached, c, 0)
      else
        (case fetchFn () of
           Inl e \<Rightarrow> (Inl e, c, 1)
         | Inr data \<Rightarrow> (Inr data, cache_set c now key data None, 1)))"

subsection \<open>Logos and heroes\<close>

datatype asset_type = Logos | Heroes

text \<open>The answers of the asset source: \<open>searchResp.data\<close> with its \<open>success\<close> flag and
  \<open>data.id\<close> (\<open>None\<close>: there is no \<open>data\<close> object, and reading its \<open>id\<close> raises a
  TypeError), and \<open>assetsResp.data\<close> with its \<open>success\<close> flag and \<open>data\<close>
  (\<open>None\<close>: missing or falsy).  A request that throws is \<open>Inl\<close>: \<open>HttpError n\<close> carries
  \<open>error.response.status\<close>, the others have no response.\<close>

record grid_search =
  success :: bool
  game_id :: "int option"

record 'a grid_assets =
  assets_success :: bool
  assets_data :: "'a list option"

record 'a grid_io =
  api_key :: bool
  search_reply :: "int \<Rightarrow> failure + grid_search"
  assets_reply :: "asset_type \<Rightarrow> int \<Rightarrow> failure + 'a grid_assets"

text \<open>\<open>error.response?.status === 404 ? 3600 : 0\<close>\<close>

definition error_ttl :: "failure \<Rightarrow> nat" where
  "error_ttl e = (if e = HttpError 404 then 3600 else 0)"

text \<open>\<open>fetchSteamGridAssets\<close>.  The cache key \<open>`${assetType}_${appid}`\<close> is the pair of its
  two parts.  The arrays it caches are truthy, so \<open>if (cached)\<close> holds exactly when the
  cache has a live entry.\<close>

definition fetchSteamGridAssets ::
  "'a grid_io \<Rightarrow> (asset_type \<times> int, 'a list) cache \<Rightarrow> nat \<Rightarrow> int \<Rightarrow> asset_type \<Rightarrow>
     'a list \<times> (asset_type \<times> int, 'a list) cache" where
  "fetchSteamGridAssets io c now appid' assetType =
     (let cacheKey = (assetType, appid') in
      case cache_get c now cacheKey of
        Some cached \<Rightarrow> (cached, c)
      | None \<Rightarrow>
          if \<not> api_key io then ([], c)
          else
            (case search_reply io appid' of
               Inl e \<Rightarrow> ([], cache_set c now cacheKey [] (Some (error_ttl e)))
             | Inr searchResp \<Rightarrow>
                 if \<not> success searchResp then ([], cache_set c now cacheKey [] None)
                 else
                   (case game_id searchResp of
                      None \<Rightarrow> ([], cache_set c now cacheKey [] (Some (error_ttl TypeError)))
                    | Some gid \<Rightarrow>
                        (case assets_reply io assetType gid of
                           Inl e \<Rightarrow> ([], cache_set c now cacheKey [] (Some (error_ttl e)))
                         | Inr assetsResp \<Rightarrow>
                             (let assets =
                                (if assets_success assetsResp
                                 then (case assets_data assetsResp of None \<Rightarrow> [] | Some d \<Rightarrow> d)
                                 else [])
                              in (assets, cache_set c now cacheKey assets (Some 86400)))))))"

section \<open>Pagination\<close>

text \<open>\<open>parseInt(...) || d\<close>: the parsed parameter is \<open>None\<close> when \<open>parseInt\<close> gives
  \<open>NaN\<close>; \<open>NaN\<close> and \<open>0\<close> are falsy.\<close>

definition int_or :: "int option \<Rightarrow> int \<Rightarrow> int" where
  "int_or x d = (case x of None \<Rightarrow> d | Some v \<Rightarrow> if v = 0 then d else v)"

text \<open>\<open>Math.max(1, parseInt(req.query.page) || 1)\<close> and
  \<open>Math.min(100, parseInt(req.query.perPage) || 16)\<close>, the same in both handlers.\<close>

definition effective_page :: "int option \<Rightarrow> int" where
  "effective_page parsed = max 1 (int_or parsed 1)"

definition effective_perPage :: "int option \<Rightarrow> int" where
  "effective_perPage parsed = min 100 (int_or parsed 16)"

text \<open>\<open>Array.prototype.slice(start, end)\<close>: a negative index counts from the end, and
  both indices are clamped to the array.\<close>

definition slice_index :: "nat \<Rightarrow> int \<Rightarrow> nat" where
  "slice_index n i = (if i < 0 then nat (max (int n + i) 0) else min (nat i) n)"

definition js_slice :: "'a list \<Rightarrow> int \<Rightarrow> int \<Rightarrow> 'a list" where
  "js_slice xs start end' =
     (let k = slice_index (length xs) start; final = slice_index (length xs) end'
      in take (final - k) (drop k xs))"

datatype 'b response = Failed nat string | Json 'b

record 'a listing =
  total :: nat
  page :: int
  perPage :: int
  games :: "'a list"

record 'a search_listing = "'a listing" +
  totalPages :: int

text \<open>
  \<^verbatim>\<open>
  app.get("/games", async (req, res) => {
    const page = Math.max(1, parseInt(req.query.page as string) || 1);
    const perPage = Math.min(100, parseInt(req.query.perPage as string) || 16);
    try {
      const allGames = await getAppList();
      if (!allGames?.length)
        return res.status(503).json({ error: "App list not ready" });
      res.json({ total: allGames.length, page, perPage,
        games: allGames.slice((page - 1) * perPage, page * perPage) });
    } catch (error) {
      res.status(500).json({ error: "Failed to fetch games list" });
    }
  });
  \<close>
  The two parameters are the results of \<open>parseInt\<close> on the query string.
\<close>

definition games_handler ::
  "catalog_io \<Rightarrow> server \<Rightarrow> int option \<Rightarrow> int option \<Rightarrow> app listing response \<times> server" where
  "games_handler io s pageQ perPageQ =
     (let pg = effective_page pageQ; pp = effective_perPage perPageQ in
      case getAppList io s of
        Inl _ \<Rightarrow> (Failed 500 ''Failed to fetch games list'', s)
      | Inr (allGames, s') \<Rightarrow>
          if allGames = [] then (Failed 503 ''App list not ready'', s')
          else
            (Json \<lparr>total = length allGames, page = pg, perPage = pp,
                   games = js_slice allGames ((pg - 1) * pp) (pg * pp)\<rparr>, s'))"

text \<open>The \<open>games\<close> array of a response; an error response has none.\<close>

fun games_of :: "'a listing response \<Rightarrow> 'a list" where
  "games_of (Json l) = games l"
| "games_of (Failed _ _) = []"

text \<open>The pages 1 to \<open>n\<close> of \<open>GET /games\<close> for one \<open>perPage\<close> parameter, concatenated.\<close>

definition pages_upto :: "catalog_io \<Rightarrow> server \<Rightarrow> int option \<Rightarrow> nat \<Rightarrow> app list" where
  "pages_upto io s perPageQ n =
     concat (map (\<lambda>k. games_of (fst (games_handler io s (Some (int k)) perPageQ))) [1..<Suc n])"

section \<open>The search pipeline\<close>

text \<open>A candidate of the fuzzy engine: the item and its match quality (\<open>r.score\<close>, which
  the type of the library leaves optional).\<close>

record fuse_result =
  item :: app
  score :: "real option"

text \<open>The fuzzy engine is a library outside the repository: it is a parameter, the
  function from an index and a query to all its candidates, best first.
  Modelled from the spec: \<open>search(query, limit)\<close> returns up to \<open>limit\<close> candidates.\<close>

type_synonym fuse_engine = "app list \<Rightarrow> js_string \<Rightarrow> fuse_result list"

definition fuse_search :: "fuse_engine \<Rightarrow> app list \<Rightarrow> js_string \<Rightarrow> nat \<Rightarrow> fuse_result list" where
  "fuse_search engine idx query limit = take limit (engine idx query)"

text \<open>\<open>s.split(/\s+/)\<close>\<close>

function split_ws :: "js_string \<Rightarrow> js_string list" where
  "split_ws [] = [[]]"
| "split_ws (c # cs) =
     (if is_space c then [] # split_ws (dropWhile is_space cs)
      else (case split_ws cs of [] \<Rightarrow> [[c]] | w # ws \<Rightarrow> (c # w) # ws))"
  by pat_completeness auto
termination
  by (relation "measure length") (auto simp: less_Suc_eq_le length_dropWhile_le)

definition query_words :: "js_string \<Rightarrow> js_string list" where
  "query_words queryLower = filter (\<lambda>w. length w > 0) (split_ws queryLower)"

text \<open>The predicate of \<open>results.filter\<close>:
  \<^verbatim>\<open>
  if ((r.score || 1) > 0.4) return false;
  if (queryWords.length > 1) {
    return queryWords.every((w) => r.item.lowerName.includes(w));
  }
  return true;
  \<close>
\<close>

definition keep :: "js_string list \<Rightarrow> fuse_result \<Rightarrow> bool" where
  "keep queryWords r =
     (if num_or (score r) 1 > 0.4 then False
      else if length queryWords > 1
        then list_all (\<lambda>w. js_includes (lowerName (item r)) w) queryWords
      else True)"

text \<open>A ranked result: the item with its \<open>relevanceScore\<close>.\<close>

record search_hit =
  hit :: app
  relevanceScore :: real

definition score_hit :: "js_string \<Rightarrow> fuse_result \<Rightarrow> search_hit" where
  "score_hit queryLower r =
     \<lparr>hit = item r,
      relevanceScore = calculateSimpleScore (lowerName (item r)) queryLower (num_or (score r) 0)\<rparr>"

text \<open>The filter, map, sort and slice of the handler.  \<open>Array.prototype.sort\<close> is stable
  and the comparator orders by falling \<open>relevanceScore\<close>; that is the stable insertion
  sort on the negated score.\<close>

definition rank_results :: "js_string \<Rightarrow> fuse_result list \<Rightarrow> search_hit list" where
  "rank_results query results =
     (let queryLower = toLowerCase query;
          queryWords = query_words queryLower
      in take 100
           (sort_key (\<lambda>h. - relevanceScore h)
              (map (score_hit queryLower) (filter (keep queryWords) results))))"

text \<open>The listing of a response; an error response has none.\<close>

fun listing_of :: "'b response \<Rightarrow> 'b option" where
  "listing_of (Json l) = Some l"
| "listing_of (Failed _ _) = None"

text \<open>What the handler keeps of the cache of the search results: no cached result list
  is longer than 100.\<close>

definition search_cache_ok :: "(js_string, search_hit list) cache \<Rightarrow> bool" where
  "search_cache_ok c \<longleftrightarrow> (\<forall>k e. c k = Some e \<longrightarrow> length (val e) \<le> 100)"

text \<open>\<open>app.get("/games/search")\<close>, with the cache of the search results.\<close>

definition search_handler ::
  "fuse_engine \<Rightarrow> catalog_io \<Rightarrow> nat \<Rightarrow> server \<Rightarrow> (js_string, search_hit list) cache \<Rightarrow>
     js_string option \<Rightarrow> int option \<Rightarrow> int option \<Rightarrow>
     search_hit search_listing response \<times> server \<times> (js_string, search_hit list) cache" where
  "search_handler engine io now s c q pageQ perPageQ =
     (let query = trim (case q of None \<Rightarrow> [] | Some x \<Rightarrow> x) in
      if query = [] then (Failed 400 ''Search query required'', s, c)
      else
        (let pg = effective_page pageQ; pp = effective_perPage perPageQ in
         case getAppList io s of
           Inl _ \<Rightarrow> (Failed 500 ''Failed to fetch games'', s, c)
         | Inr (allGames, s') \<Rightarrow>
             (case fuseInstance s' of
                None \<Rightarrow> (Failed 503 ''App list not ready'', s', c)
              | Some idx \<Rightarrow>
                  if allGames = [] then (Failed 503 ''App list not ready'', s', c)
                  else
                    (let cacheKey = js ''search_'' @ toLowerCase query;
                         (filtered, c') =
                           (case cache_get c now cacheKey of
                              Some f \<Rightarrow> (f, c)
                            | None \<Rightarrow>
                                (let f = rank_results query (fuse_search engine idx query 200)
                                 in (f, cache_set c now cacheKey f (Some 300))))
                     in (Json \<lparr>total = length filtered, page = pg, perPage = pp,
                               games = js_slice filtered ((pg - 1) * pp) (pg * pp),
                               totalPages = \<lceil>real (length filtered) / real_of_int pp\<rceil>\<rparr>,
                         s', c')))))"

section \<open>Sample data\<close>

text \<open>A catalog of \<open>n\<close> entries, all named alike and told apart by their ids, a server
  that has loaded it, and a world in which neither the snapshot nor the catalog source
  can be reached.\<close>

definition sample_app :: "nat \<Rightarrow> app" where
  "sample_app i =
     \<lparr>appid = int i, name = js ''Dota'', lowerName = js ''dota'', searchName = js ''dota''\<rparr>"

definition sample_server :: "nat \<Rightarrow> server" where
  "sample_server n =
     \<lparr>steamApps = map sample_app [0..<n], fuseInstance = Some (map sample_app [0..<n]),
      appListReady = True\<rparr>"

definition offline :: catalog_io where
  "offline = \<lparr>snapshot_file = None, app_list_response = None, write_ok = False\<rparr>"

text \<open>An engine that returns every indexed item, each with the match quality 0.1.\<close>

definition sample_engine :: fuse_engine where
  "sample_engine idx query = map (\<lambda>a. \<lparr>item = a, score = Some (1 / 10)\<rparr>) idx"

text \<open>Two candidates for the query \<open>Dota\<close>, in the order of the engine: a longer name
  with the better match quality, then the exact match.\<close>

definition dota2 :: app where
  "dota2 = \<lparr>appid = 570, name = js ''Dota 2'', lowerName = js ''dota 2'',
            searchName = js ''dota 2''\<rparr>"

definition dota_candidates :: "fuse_result list" where
  "dota_candidates =
     [\<lparr>item = dota2, score = Some (1 / 20)\<rparr>, \<lparr>item = sample_app 7, score = Some (3 / 10)\<rparr>]"

text \<open>The entry of the catalog for \<open>Half-Life: Alyx\<close>, as \<open>prepareApps\<close> leaves it.\<close>

definition alyx :: app where
  "alyx = \<lparr>appid = 546560, name = js ''Half-Life: Alyx'', lowerName = js ''half-life: alyx'',
           searchName = js ''half-life alyx''\<rparr>"

text \<open>An asset source with a credential that gives the same two answers to every
  request; and a world in which there is no snapshot, the catalog source answers with
  the one entry \<open>Half-Life: Alyx\<close>, and the snapshot cannot be written.\<close>

definition sample_grid ::
  "failure + grid_search \<Rightarrow> failure + string grid_assets \<Rightarrow> string grid_io" where
  "sample_grid s a = \<lparr>api_key = True, search_reply = (\<lambda>_. s), assets_reply = (\<lambda>_ _. a)\<rparr>"

definition read_only_disk :: catalog_io where
  "read_only_disk =
     \<lparr>snapshot_file = None,
      app_list_response = Some [\<lparr>raw_appid = 546560, raw_name = Some (js ''Half-Life: Alyx'')\<rparr>],
      write_ok = False\<rparr>"

section \<open>Properties of the relevance score\<close>

lemma whole_word_iff:
  "whole_word nm query \<longleftrightarrow>
     (\<exists>ps ss. nm = ps @ query @ ss \<and> (ps = [] \<or> last ps = SPACE) \<and> (ss = [] \<or> hd ss = SPACE))"
proof
  assume "whole_word nm query"
  then show "\<exists>ps ss. nm = ps @ query @ ss \<and> (ps = [] \<or> last ps = SPACE) \<and> (ss = [] \<or> hd ss = SPACE)"
    unfolding whole_word_def by blast
next
  assume "\<exists>ps ss. nm = ps @ query @ ss \<and> (ps = [] \<or> last ps = SPACE) \<and> (ss = [] \<or> hd ss = SPACE)"
  then obtain ps ss where n: "nm = ps @ query @ ss"
    and b: "(ps = [] \<or> last ps = SPACE) \<and> (ss = [] \<or> hd ss = SPACE)"
    by blast
  from n have "ps \<in> set (prefixes nm)" by simp
  moreover from n have "suffix ss nm"
    unfolding suffix_def by (intro exI [of _ "ps @ query"]) simp
  then have "ss \<in> set (suffixes nm)" by simp
  ultimately show "whole_word nm query"
    unfolding whole_word_def using n b by blast
qed

lemma whole_word_not_prefix:
  assumes "\<not> prefix query nm"
  shows "whole_word nm query \<longleftrightarrow>
           sublist (SPACE # query @ [SPACE]) nm \<or> suffix (SPACE # query) nm"
proof
  assume "whole_word nm query"
  then obtain ps ss where n: "nm = ps @ query @ ss"
    and p: "ps = [] \<or> last ps = SPACE" and s: "ss = [] \<or> hd ss = SPACE"
    unfolding whole_word_iff by blast
  from assms n have "ps \<noteq> []" by (auto simp: prefix_def)
  with p obtain ps' where ps: "ps = ps' @ [SPACE]"
    by (metis append_butlast_last_id)
  show "sublist (SPACE # query @ [SPACE]) nm \<or> suffix (SPACE # query) nm"
  proof (cases ss)
    case Nil
    with n ps have "nm = ps' @ (SPACE # query)" by simp
    then show ?thesis unfolding suffix_def by blast
  next
    case (Cons c cs)
    with s have "c = SPACE" by simp
    with n ps Cons have "nm = ps' @ (SPACE # query @ [SPACE]) @ cs" by simp
    then show ?thesis unfolding sublist_def by blast
  qed
next
  assume "sublist (SPACE # query @ [SPACE]) nm \<or> suffix (SPACE # query) nm"
  then show "whole_word nm query"
  proof
    assume "sublist (SPACE # query @ [SPACE]) nm"
    then obtain ps ss where "nm = ps @ (SPACE # query @ [SPACE]) @ ss"
      unfolding sublist_def by blast
    then have "nm = (ps @ [SPACE]) @ query @ (SPACE # ss)" by simp
    then show ?thesis unfolding whole_word_iff
      by (intro exI [of _ "ps @ [SPACE]"] exI [of _ "SPACE # ss"]) simp
  next
    assume "suffix (SPACE # query) nm"
    then obtain ps where "nm = ps @ (SPACE # query)"
      unfolding suffix_def by blast
    then have "nm = (ps @ [SPACE]) @ query @ []" by simp
    then show ?thesis unfolding whole_word_iff
      by (intro exI [of _ "ps @ [SPACE]"] exI [of _ "[]"]) simp
  qed
qed

text \<open>
  C2.  For every name, every query and every fuzzy quality, \<open>calculateSimpleScore\<close> is
  the six-step cascade of the specification: the baseline \<open>(1 - q) * 100\<close>; exactly
  100000 for an exact match; 50000 plus the baseline for a prefix; 20000 plus the
  baseline when the query is a whole word of the name, bounded by spaces or the ends of
  the name; 10000 plus the baseline for any other substring; else the baseline, plus
  \<open>(30 - length name) * 5\<close> for a name shorter than 30.
\<close>

theorem calculateSimpleScore_is_spec_cascade:
  "calculateSimpleScore nm query q = spec_score nm query q"
proof (cases "prefix query nm")
  case True
  then show ?thesis
    by (simp add: calculateSimpleScore_def spec_score_def spec_baseline_def startsWith_def)
next
  case False
  then show ?thesis
    using whole_word_not_prefix [OF False]
    by (simp add: calculateSimpleScore_def spec_score_def spec_baseline_def startsWith_def
        js_includes_def endsWith_def)
qed

theorem calculateSimpleScore_is_spec_cascade_witness:
  "calculateSimpleScore (js ''the dota game'') (js ''dota'') (1 / 4)
     = spec_score (js ''the dota game'') (js ''dota'') (1 / 4)"
  using calculateSimpleScore_is_spec_cascade [of "js ''the dota game''" "js ''dota''" "1 / 4"]
  by simp

subsection \<open>The bands of the tiers\<close>

lemma score_in_band:
  assumes "0 \<le> q" "q \<le> 1"
  shows "tier_lo (tier_of nm query) \<le> calculateSimpleScore nm query q
         \<and> calculateSimpleScore nm query q \<le> tier_hi (tier_of nm query)"
  using assms by (simp add: calculateSimpleScore_def tier_of_def Let_def)

lemma bands_apart: "tier_rank s < tier_rank t \<Longrightarrow> tier_hi s < tier_lo t"
  by (cases s; cases t) simp_all

text \<open>
  C8.  The score ranges of the five tiers never overlap: for fuzzy qualities between 0
  and 1, a score of a higher tier (exact over prefix over whole word over substring over
  pure fuzzy, the boost for short names included) is greater than every score of a lower
  tier, whatever the names, the queries and the qualities are.
\<close>

theorem tiers_never_overlap:
  assumes "0 \<le> q1" "q1 \<le> 1" "0 \<le> q2" "q2 \<le> 1"
    and "tier_rank (tier_of n1 u1) < tier_rank (tier_of n2 u2)"
  shows "calculateSimpleScore n1 u1 q1 < calculateSimpleScore n2 u2 q2"
proof -
  have "calculateSimpleScore n1 u1 q1 \<le> tier_hi (tier_of n1 u1)"
    using score_in_band [of q1 n1 u1] assms by simp
  also have "\<dots> < tier_lo (tier_of n2 u2)"
    using assms(5) by (rule bands_apart)
  also have "\<dots> \<le> calculateSimpleScore n2 u2 q2"
    using score_in_band [of q2 n2 u2] assms by simp
  finally show ?thesis .
qed

theorem tiers_never_overlap_witness:
  "(0::real) \<le> 0 \<and> (0::real) \<le> 1 \<and> (1::real) \<le> 1
   \<and> tier_rank (tier_of (js ''dota'') (js ''data''))
       < tier_rank (tier_of (js ''xdotax'') (js ''dota''))
   \<and> calculateSimpleScore (js ''dota'') (js ''data'') 0
       < calculateSimpleScore (js ''xdotax'') (js ''dota'') 1"
proof -
  have r: "tier_rank (tier_of (js ''dota'') (js ''data''))
             < tier_rank (tier_of (js ''xdotax'') (js ''dota''))"
    by code_simp
  show ?thesis
    using r tiers_never_overlap [of 0 1 "js ''dota''" "js ''data''" "js ''xdotax''" "js ''dota''"]
    by simp
qed

section \<open>Properties of the pagination\<close>

lemma getAppList_loaded: "steamApps s \<noteq> [] \<Longrightarrow> getAppList io s = Inr (steamApps s, s)"
  by (simp add: getAppList_def)

lemma take_drop_clamp:
  "take (min (a + e) (length xs) - min a (length xs)) (drop (min a (length xs)) xs)
     = take e (drop a xs)"
proof (cases "a < length xs")
  case True
  then have "min (a + e) (length xs) - min a (length xs) = min e (length (drop a xs))"
    by (auto simp: min_def)
  moreover from True have "min a (length xs) = a" by simp
  ultimately show ?thesis by (simp add: min_def)
next
  case False
  then show ?thesis by simp
qed

lemma js_slice_window:
  "js_slice xs (int a) (int a + int e) = take e (drop a xs)"
  using take_drop_clamp [of a e xs]
  by (simp add: js_slice_def slice_index_def nat_add_distrib)

lemma concat_windows:
  "concat (map (\<lambda>k. take e (drop ((k - 1) * e) xs)) [1..<Suc m]) = take (m * e) xs"
proof (induction m)
  case 0
  show ?case by simp
next
  case (Suc m)
  have "take (Suc m * e) xs = take (m * e) xs @ take e (drop (m * e) xs)"
    using take_add [of "m * e" e xs] by (simp add: add.commute)
  with Suc show ?case by simp
qed

lemma games_page:
  assumes "steamApps s \<noteq> []" "1 \<le> p" "1 \<le> k"
  shows "games_of (fst (games_handler io s (Some (int k)) (Some p)))
           = take (nat (min 100 p)) (drop ((k - 1) * nat (min 100 p)) (steamApps s))"
proof -
  define e where "e = nat (min 100 p)"
  from assms have e: "min 100 p = int e" by (simp add: e_def)
  from assms have pg: "effective_page (Some (int k)) = int k"
    by (simp add: effective_page_def int_or_def)
  from assms have pp: "effective_perPage (Some p) = int e"
    by (simp add: effective_perPage_def int_or_def e)
  from assms have w: "(int k - 1) * int e = int ((k - 1) * e)"
    by (simp add: of_nat_diff)
  have w': "int k * int e = int ((k - 1) * e) + int e"
    using w by (simp add: algebra_simps)
  have "games_of (fst (games_handler io s (Some (int k)) (Some p)))
          = js_slice (steamApps s) (int ((k - 1) * e)) (int ((k - 1) * e) + int e)"
    using assms(1) by (simp add: games_handler_def getAppList_loaded pg pp w w' Let_def)
  then show ?thesis
    unfolding e_def [symmetric] by (simp only: js_slice_window)
qed

lemma pages_upto_take:
  assumes "steamApps s \<noteq> []" "1 \<le> p"
  shows "pages_upto io s (Some p) m = take (m * nat (min 100 p)) (steamApps s)"
proof -
  have "map (\<lambda>k. games_of (fst (games_handler io s (Some (int k)) (Some p)))) [1..<Suc m]
          = map (\<lambda>k. take (nat (min 100 p)) (drop ((k - 1) * nat (min 100 p)) (steamApps s)))
              [1..<Suc m]"
    using assms by (intro map_cong refl games_page) auto
  then show ?thesis
    unfolding pages_upto_def by (simp only: concat_windows)
qed

lemma ceiling_pages_cover:
  assumes "0 < e"
  shows "n \<le> nat \<lceil>real n / real e\<rceil> * e"
proof -
  define c where "c = \<lceil>real n / real e\<rceil>"
  have "(0::real) \<le> real n / real e" by simp
  then have "- 1 < real n / real e" by linarith
  then have c0: "0 \<le> c" unfolding c_def by (simp add: zero_le_ceiling)
  have "real n / real e \<le> real_of_int c" unfolding c_def by (rule le_of_int_ceiling)
  then have "real n \<le> real_of_int c * real e"
    using assms by (simp add: pos_divide_le_eq)
  also have "real_of_int c = real (nat c)" using c0 by simp
  finally have "real n \<le> real (nat c * e)" by simp
  then show ?thesis unfolding c_def by linarith
qed

lemma window_of_five:
  assumes "length xs = 5"
  shows "take 2 (drop 2 xs) = [xs ! 2, xs ! 3]"
proof -
  from assms obtain a b c d f where "xs = [a, b, c, d, f]"
    by (auto simp: numeral_eq_Suc length_Suc_conv)
  then show ?thesis by simp
qed

text \<open>
  C6, as amended.  For a loaded catalog and a \<open>perPage\<close> parameter of at least 1, the
  pages of \<open>GET /games\<close> partition the catalog when they are counted with the page size
  the server applies, \<open>min 100 perPage\<close>: the games of the pages 1 to
  \<open>ceil (total / min 100 perPage)\<close>, concatenated, are the catalog in its order.  On a
  catalog of five items, \<open>page = 2\<close> and \<open>perPage = 2\<close> give the items at the indices
  2 and 3.
\<close>

theorem games_pages_partition:
  assumes "steamApps s \<noteq> []" and "1 \<le> p"
  shows "pages_upto io s (Some p)
           (nat \<lceil>real (length (steamApps s)) / real_of_int (min 100 p)\<rceil>) = steamApps s
         \<and> (length (steamApps s) = 5 \<longrightarrow>
              games_of (fst (games_handler io s (Some 2) (Some 2)))
                = [steamApps s ! 2, steamApps s ! 3])"
proof
  define e where "e = nat (min 100 p)"
  from assms have e: "0 < e" "real_of_int (min 100 p) = real e"
    by (simp_all add: e_def)
  have "length (steamApps s) \<le> nat \<lceil>real (length (steamApps s)) / real e\<rceil> * e"
    using e(1) by (rule ceiling_pages_cover)
  then show "pages_upto io s (Some p)
      (nat \<lceil>real (length (steamApps s)) / real_of_int (min 100 p)\<rceil>) = steamApps s"
    using assms by (simp add: pages_upto_take e(2)) (simp add: e_def)
next
  show "length (steamApps s) = 5 \<longrightarrow>
          games_of (fst (games_handler io s (Some 2) (Some 2)))
            = [steamApps s ! 2, steamApps s ! 3]"
  proof
    assume l: "length (steamApps s) = 5"
    have "games_of (fst (games_handler io s (Some (int 2)) (Some 2)))
            = take (nat (min 100 2)) (drop ((2 - 1) * nat (min 100 2)) (steamApps s))"
      using assms(1) by (intro games_page) simp_all
    then have "games_of (fst (games_handler io s (Some 2) (Some 2)))
                 = take 2 (drop 2 (steamApps s))"
      by simp
    also have "\<dots> = [steamApps s ! 2, steamApps s ! 3]"
      using l by (rule window_of_five)
    finally show "games_of (fst (games_handler io s (Some 2) (Some 2)))
                    = [steamApps s ! 2, steamApps s ! 3]" .
  qed
qed

theorem games_pages_partition_witness:
  "steamApps (sample_server 5) \<noteq> [] \<and> (1::int) \<le> 2
   \<and> pages_upto offline (sample_server 5) (Some 2)
        (nat \<lceil>real (length (steamApps (sample_server 5))) / real_of_int (min 100 2)\<rceil>)
       = steamApps (sample_server 5)
   \<and> games_of (fst (games_handler offline (sample_server 5) (Some 2) (Some 2)))
       = [steamApps (sample_server 5) ! 2, steamApps (sample_server 5) ! 3]"
proof -
  have h: "steamApps (sample_server 5) \<noteq> []" by (simp add: sample_server_def)
  have l: "length (steamApps (sample_server 5)) = 5" by (simp add: sample_server_def)
  show ?thesis
    using h l games_pages_partition [OF h, of 2 offline] by simp
qed

text \<open>
  C6, as stated, fails when the pages are counted with the \<open>perPage\<close> of the request:
  on a catalog of 101 items and \<open>perPage = 101\<close> there is \<open>ceil (101 / 101) = 1\<close> page,
  and it holds 100 items.
\<close>

theorem games_pages_requested_size_counterexample:
  "pages_upto offline (sample_server 101) (Some 101)
     (nat \<lceil>real (length (steamApps (sample_server 101))) / real_of_int 101\<rceil>)
     \<noteq> steamApps (sample_server 101)"
proof -
  have h: "steamApps (sample_server 101) \<noteq> []" by (simp add: sample_server_def)
  have l: "length (steamApps (sample_server 101)) = 101" by (simp add: sample_server_def)
  have "pages_upto offline (sample_server 101) (Some 101) 1
          = take (1 * nat (min 100 101)) (steamApps (sample_server 101))"
    using h by (intro pages_upto_take) simp_all
  then have "length (pages_upto offline (sample_server 101) (Some 101) 1) = 100"
    using l by simp
  then have "pages_upto offline (sample_server 101) (Some 101) 1 \<noteq> steamApps (sample_server 101)"
    using l by auto
  then show ?thesis using l by simp
qed

section \<open>Properties of the search pipeline\<close>

subsection \<open>The words of a query\<close>

lemma split_ws_head: "split_ws s \<noteq> [] \<and> prefix (hd (split_ws s)) s"
  by (induction s rule: split_ws.induct) (auto split: list.splits)

lemma split_ws_sublist: "w \<in> set (split_ws s) \<Longrightarrow> sublist w s"
proof (induction s arbitrary: w rule: split_ws.induct)
  case 1
  then show ?case by simp
next
  case (2 c cs)
  show ?case
  proof (cases "is_space c")
    case True
    with "2.prems" have "w = [] \<or> w \<in> set (split_ws (dropWhile is_space cs))" by simp
    then show ?thesis
    proof
      assume "w = []"
      then show ?thesis by simp
    next
      assume "w \<in> set (split_ws (dropWhile is_space cs))"
      with True "2.IH"(1) have "sublist w (dropWhile is_space cs)" by blast
      moreover have "sublist (dropWhile is_space cs) (c # cs)"
        by (metis sublist_dropWhile sublist_Cons_right)
      ultimately show ?thesis by (rule sublist_order.order_trans)
    qed
  next
    case False
    from split_ws_head [of cs] obtain v vs where v: "split_ws cs = v # vs" "prefix v cs"
      by (cases "split_ws cs") auto
    with False "2.prems" have "w = c # v \<or> w \<in> set vs" by simp
    then show ?thesis
    proof
      assume "w = c # v"
      with v(2) show ?thesis by (simp add: prefix_imp_sublist)
    next
      assume "w \<in> set vs"
      with v(1) have "w \<in> set (split_ws cs)" by simp
      with False "2.IH"(2) have "sublist w cs" by blast
      then show ?thesis by (simp add: sublist_Cons_right)
    qed
  qed
qed

lemma query_words_sublist: "w \<in> set (query_words s) \<Longrightarrow> sublist w s"
  by (auto simp: query_words_def dest: split_ws_sublist)

subsection \<open>The filter and the scores\<close>

lemma keep_quality: "keep ws r \<Longrightarrow> num_or (score r) 1 \<le> 4 / 10"
  by (simp add: keep_def split: if_splits)

lemma keep_words:
  "keep ws r \<Longrightarrow> 1 < length ws \<Longrightarrow> w \<in> set ws \<Longrightarrow> js_includes (lowerName (item r)) w"
  by (simp add: keep_def list_all_iff split: if_splits)

lemma keep_exact:
  assumes "lowerName (item r) = ql" "num_or (score r) 1 \<le> 4 / 10"
  shows "keep (query_words ql) r"
  using assms by (auto simp: keep_def list_all_iff js_includes_def dest: query_words_sublist)

lemma exact_score:
  "lowerName (item r) = ql \<Longrightarrow> relevanceScore (score_hit ql r) = 100000"
  by (simp add: score_hit_def calculateSimpleScore_def)

lemma other_score:
  assumes "lowerName (item r) \<noteq> ql" "0 \<le> num_or (score r) 0"
  shows "relevanceScore (score_hit ql r) < 100000"
proof -
  have "relevanceScore (score_hit ql r) \<le> 50000 + (1 - num_or (score r) 0) * 100"
    using assms by (simp add: score_hit_def calculateSimpleScore_def Let_def)
  also have "\<dots> < 100000" using assms(2) by simp
  finally show ?thesis .
qed

lemma quality_nonneg:
  assumes "\<forall>q. score r = Some q \<longrightarrow> 0 \<le> q \<and> q \<le> 1"
  shows "0 \<le> num_or (score r) 0"
  using assms by (cases "score r") (simp_all add: num_or_def)

subsection \<open>The sorted list\<close>

lemma sorted_least_first:
  assumes "sorted (map f ys)" "\<forall>y \<in> set ys. k \<le> f y"
  shows "ys = filter (\<lambda>y. f y = k) ys @ filter (\<lambda>y. f y \<noteq> k) ys"
  using assms
proof (induction ys)
  case Nil
  show ?case by simp
next
  case (Cons y ys)
  show ?case
  proof (cases "f y = k")
    case True
    with Cons show ?thesis by simp
  next
    case False
    with Cons.prems have "\<forall>z \<in> set ys. f z \<noteq> k" by fastforce
    then have "filter (\<lambda>y. f y = k) ys = []" "filter (\<lambda>y. f y \<noteq> k) ys = ys"
      by (simp_all add: filter_empty_conv filter_id_conv)
    with False show ?thesis by simp
  qed
qed

lemma rank_results_hits:
  assumes "h \<in> set (rank_results query results)"
  shows "\<exists>r \<in> set results. keep (query_words (toLowerCase query)) r
           \<and> h = score_hit (toLowerCase query) r"
proof -
  from assms have "h \<in> set (sort_key (\<lambda>h. - relevanceScore h)
      (map (score_hit (toLowerCase query))
         (filter (keep (query_words (toLowerCase query))) results)))"
    unfolding rank_results_def Let_def by (rule in_set_takeD)
  then show ?thesis by auto
qed

lemma rank_results_sorted:
  "sorted (map (\<lambda>h. - relevanceScore h) (rank_results query results))"
  unfolding rank_results_def Let_def by (simp add: take_map [symmetric] sorted_wrt_take)

lemma hit_score_hit: "hit (score_hit ql r) = item r"
  by (simp add: score_hit_def)

lemma exact_hits_first:
  assumes scores: "\<forall>r \<in> set results. \<forall>q. score r = Some q \<longrightarrow> 0 \<le> q \<and> q \<le> 1"
    and i: "i < length (rank_results query results)"
    and j: "j < length (rank_results query results)"
    and ei: "lowerName (hit (rank_results query results ! i)) = toLowerCase query"
    and ej: "lowerName (hit (rank_results query results ! j)) \<noteq> toLowerCase query"
  shows "i < j \<and> relevanceScore (rank_results query results ! j)
                   < relevanceScore (rank_results query results ! i)"
proof -
  let ?res = "rank_results query results"
  let ?ql = "toLowerCase query"
  from i have "?res ! i \<in> set ?res" by simp
  then obtain r where r: "r \<in> set results" "?res ! i = score_hit ?ql r"
    using rank_results_hits by blast
  from j have "?res ! j \<in> set ?res" by simp
  then obtain r' where r': "r' \<in> set results" "?res ! j = score_hit ?ql r'"
    using rank_results_hits by blast
  from ei r(2) have si: "relevanceScore (?res ! i) = 100000"
    by (simp add: hit_score_hit exact_score)
  from scores r'(1) have "0 \<le> num_or (score r') 0"
    by (intro quality_nonneg) blast
  with ej r'(2) have sj: "relevanceScore (?res ! j) < 100000"
    by (simp add: hit_score_hit other_score)
  have "i < j"
  proof (rule ccontr)
    assume "\<not> i < j"
    with ei ej have "j < i" by (cases "i = j") auto
    with i rank_results_sorted [of query results]
    have "- relevanceScore (?res ! j) \<le> - relevanceScore (?res ! i)"
      by (auto simp: sorted_iff_nth_mono_less)
    with si sj show False by simp
  qed
  with si sj show ?thesis by simp
qed

lemma exact_hit_present:
  assumes scores: "\<forall>r \<in> set results. \<forall>q. score r = Some q \<longrightarrow> 0 \<le> q \<and> q \<le> 1"
    and r: "r \<in> set results"
    and exact: "lowerName (item r) = toLowerCase query"
    and q: "score r = Some q" "0 < q" "q \<le> 4 / 10"
    and few: "length (filter (\<lambda>r. lowerName (item r) = toLowerCase query) results) \<le> 100"
  shows "\<lparr>hit = item r, relevanceScore = 100000\<rparr> \<in> set (rank_results query results)"
proof -
  let ?ql = "toLowerCase query"
  let ?f = "\<lambda>h. - relevanceScore h"
  let ?kept = "filter (keep (query_words ?ql)) results"
  let ?xs = "map (score_hit ?ql) ?kept"
  let ?S = "sort_key ?f ?xs"
  let ?A = "filter (\<lambda>h. ?f h = - 100000) ?xs"
  have low: "\<forall>h \<in> set ?S. - 100000 \<le> ?f h"
  proof
    fix h assume "h \<in> set ?S"
    then obtain r' where r': "r' \<in> set results" "h = score_hit ?ql r'" by auto
    from scores r'(1) have "0 \<le> num_or (score r') 0" by (intro quality_nonneg) blast
    then show "- 100000 \<le> ?f h"
      using exact_score [of r' ?ql] other_score [of r' ?ql] r'(2)
      by (cases "lowerName (item r') = ?ql") auto
  qed
  have "?S = filter (\<lambda>h. ?f h = - 100000) ?S @ filter (\<lambda>h. ?f h \<noteq> - 100000) ?S"
    using low by (intro sorted_least_first) simp_all
  then have S: "?S = ?A @ filter (\<lambda>h. ?f h \<noteq> - 100000) ?S"
    by (simp only: sort_key_stable)
  have "?A = map (score_hit ?ql) (filter (\<lambda>r. ?f (score_hit ?ql r) = - 100000) ?kept)"
    by (simp add: filter_map comp_def)
  moreover have "filter (\<lambda>r. ?f (score_hit ?ql r) = - 100000) ?kept
                   = filter (\<lambda>r. lowerName (item r) = ?ql) ?kept"
  proof (rule filter_cong [OF refl])
    fix r' assume "r' \<in> set ?kept"
    then have "r' \<in> set results" by simp
    with scores have "0 \<le> num_or (score r') 0" by (intro quality_nonneg) blast
    then show "(?f (score_hit ?ql r') = - 100000) = (lowerName (item r') = ?ql)"
      using exact_score [of r' ?ql] other_score [of r' ?ql]
      by (cases "lowerName (item r') = ?ql") auto
  qed
  ultimately have A: "?A = map (score_hit ?ql) (filter (\<lambda>r. lowerName (item r) = ?ql) ?kept)"
    by simp
  have "length ?A = length (filter (keep (query_words ?ql))
                              (filter (\<lambda>r. lowerName (item r) = ?ql) results))"
    unfolding A by (simp add: conj_commute)
  also have "\<dots> \<le> length (filter (\<lambda>r. lowerName (item r) = ?ql) results)"
    by (rule length_filter_le)
  finally have lenA: "length ?A \<le> 100" using few by simp
  from q have "num_or (score r) 1 \<le> 4 / 10" by (simp add: num_or_def)
  with exact have "keep (query_words ?ql) r" by (intro keep_exact)
  with r exact have "score_hit ?ql r \<in> set ?A"
    unfolding A by simp
  moreover have "score_hit ?ql r = \<lparr>hit = item r, relevanceScore = 100000\<rparr>"
    using exact by (simp add: score_hit_def calculateSimpleScore_def)
  ultimately have "\<lparr>hit = item r, relevanceScore = 100000\<rparr> \<in> set ?A" by simp
  moreover have "set ?A \<subseteq> set (take 100 ?S)"
  proof -
    have "take 100 ?S = ?A @ take (100 - length ?A) (filter (\<lambda>h. ?f h \<noteq> - 100000) ?S)"
      using lenA by (subst S) simp
    then show ?thesis by simp
  qed
  ultimately show ?thesis
    unfolding rank_results_def Let_def by blast
qed

subsection \<open>The sample candidates\<close>

lemma score_by_tier:
  "calculateSimpleScore nm query q =
     (case tier_of nm query of
        Exact \<Rightarrow> 100000
      | Prefix \<Rightarrow> 50000 + (1 - q) * 100
      | WholeWord \<Rightarrow> 20000 + (1 - q) * 100
      | Substring \<Rightarrow> 10000 + (1 - q) * 100
      | Fuzzy \<Rightarrow> (1 - q) * 100 + (if length nm < 30 then (30 - real (length nm)) * 5 else 0))"
  by (simp add: calculateSimpleScore_def tier_of_def Let_def)

lemma dota_lower: "toLowerCase (js ''Dota'') = js ''dota''"
  by (simp add: toLowerCase_def js_def lower_unit_def)

lemma dota_words: "query_words (js ''dota'') = [js ''dota'']"
  by (simp add: query_words_def js_def is_space_def)

lemma dota2_tier: "tier_of (js ''dota 2'') (js ''dota'') = Prefix"
  by code_simp

lemma dota_tier: "tier_of (js ''dota'') (js ''dota'') = Exact"
  by (simp add: tier_of_def)

lemma dota_kept: "filter (keep [js ''dota'']) dota_candidates = dota_candidates"
  by (simp add: dota_candidates_def keep_def num_or_def)

lemma dota_scored:
  "map (score_hit (js ''dota'')) dota_candidates
     = [\<lparr>hit = dota2, relevanceScore = 50095\<rparr>, \<lparr>hit = sample_app 7, relevanceScore = 100000\<rparr>]"
  by (simp add: dota_candidates_def score_hit_def num_or_def score_by_tier dota2_tier dota_tier
      sample_app_def dota2_def)

lemma dota_ranked: "rank_results (js ''Dota'') dota_candidates
    = [\<lparr>hit = sample_app 7, relevanceScore = 100000\<rparr>, \<lparr>hit = dota2, relevanceScore = 50095\<rparr>]"
  unfolding rank_results_def Let_def dota_lower dota_words dota_kept dota_scored
  by simp

lemma all_exact_ranked:
  assumes "\<forall>r \<in> set results. lowerName (item r) = toLowerCase query
             \<and> num_or (score r) 1 \<le> 4 / 10"
  shows "rank_results query results
           = take 100 (map (\<lambda>r. \<lparr>hit = item r, relevanceScore = 100000\<rparr>) results)"
proof -
  let ?ql = "toLowerCase query"
  let ?f = "\<lambda>h. - relevanceScore h"
  from assms have "\<forall>r \<in> set results. keep (query_words ?ql) r"
    by (auto intro: keep_exact)
  then have kept: "filter (keep (query_words ?ql)) results = results" by simp
  have scored: "map (score_hit ?ql) results
                  = map (\<lambda>r. \<lparr>hit = item r, relevanceScore = 100000\<rparr>) results"
    using assms by (intro map_cong refl) (simp add: score_hit_def calculateSimpleScore_def)
  have "map ?f (map (\<lambda>r. \<lparr>hit = item r, relevanceScore = 100000\<rparr>) results)
          = replicate (length results) (- 100000)"
    by (simp add: map_replicate_const comp_def)
  then have "sorted (map ?f (map (\<lambda>r. \<lparr>hit = item r, relevanceScore = 100000\<rparr>) results))"
    by (simp only: sorted_replicate)
  then have "sort_key ?f (map (\<lambda>r. \<lparr>hit = item r, relevanceScore = 100000\<rparr>) results)
               = map (\<lambda>r. \<lparr>hit = item r, relevanceScore = 100000\<rparr>) results"
    by (rule sort_key_id_if_sorted)
  then show ?thesis
    unfolding rank_results_def Let_def kept scored by simp
qed

text \<open>
  C1, as amended.  For candidates whose fuzzy qualities lie between 0 and 1: a candidate
  whose lowercased name equals the lowercased query, with a quality above 0 and not
  worse than the cutoff 0.4, is in the result list with the score 100000, provided that
  at most 100 candidates carry that name (the list is cut to 100 entries); and in the
  result list every exact match stands before every other hit and has the strictly
  greater score, whatever the lengths of the names and the qualities are.
\<close>

theorem exact_match_dominance:
  assumes "\<forall>r \<in> set results. \<forall>q. score r = Some q \<longrightarrow> 0 \<le> q \<and> q \<le> 1"
  shows "(\<forall>r q. r \<in> set results \<and> lowerName (item r) = toLowerCase query
              \<and> score r = Some q \<and> 0 < q \<and> q \<le> 4 / 10
              \<and> length (filter (\<lambda>r. lowerName (item r) = toLowerCase query) results) \<le> 100
            \<longrightarrow> \<lparr>hit = item r, relevanceScore = 100000\<rparr> \<in> set (rank_results query results))
       \<and> (\<forall>i j. i < length (rank_results query results)
              \<and> j < length (rank_results query results)
              \<and> lowerName (hit (rank_results query results ! i)) = toLowerCase query
              \<and> lowerName (hit (rank_results query results ! j)) \<noteq> toLowerCase query
            \<longrightarrow> i < j \<and> relevanceScore (rank_results query results ! j)
                          < relevanceScore (rank_results query results ! i))"
proof (intro conjI allI impI)
  fix r q
  assume "r \<in> set results \<and> lowerName (item r) = toLowerCase query
              \<and> score r = Some q \<and> 0 < q \<and> q \<le> 4 / 10
              \<and> length (filter (\<lambda>r. lowerName (item r) = toLowerCase query) results) \<le> 100"
  then show "\<lparr>hit = item r, relevanceScore = 100000\<rparr> \<in> set (rank_results query results)"
    using exact_hit_present [OF assms, of r query q] by blast
next
  fix i j
  assume a: "i < length (rank_results query results)
              \<and> j < length (rank_results query results)
              \<and> lowerName (hit (rank_results query results ! i)) = toLowerCase query
              \<and> lowerName (hit (rank_results query results ! j)) \<noteq> toLowerCase query"
  then show "i < j"
    using exact_hits_first [OF assms, of i query j] by blast
  from a show "relevanceScore (rank_results query results ! j)
                 < relevanceScore (rank_results query results ! i)"
    using exact_hits_first [OF assms, of i query j] by blast
qed

theorem exact_match_dominance_witness:
  "score (dota_candidates ! 0) = Some (1 / 20) \<and> score (dota_candidates ! 1) = Some (3 / 10)
   \<and> lowerName (item (dota_candidates ! 1)) = toLowerCase (js ''Dota'')
   \<and> \<lparr>hit = item (dota_candidates ! 1), relevanceScore = 100000\<rparr>
        \<in> set (rank_results (js ''Dota'') dota_candidates)
   \<and> hit (rank_results (js ''Dota'') dota_candidates ! 0) = sample_app 7
   \<and> hit (rank_results (js ''Dota'') dota_candidates ! 1) = dota2
   \<and> relevanceScore (rank_results (js ''Dota'') dota_candidates ! 1)
        < relevanceScore (rank_results (js ''Dota'') dota_candidates ! 0)"
proof -
  have sc: "\<forall>r \<in> set dota_candidates. \<forall>q. score r = Some q \<longrightarrow> 0 \<le> q \<and> q \<le> 1"
    by (simp add: dota_candidates_def)
  have c: "dota_candidates ! 1 \<in> set dota_candidates"
    "score (dota_candidates ! 0) = Some (1 / 20)"
    "score (dota_candidates ! 1) = Some (3 / 10)"
    "item (dota_candidates ! 1) = sample_app 7"
    by (simp_all add: dota_candidates_def)
  have n: "lowerName (sample_app 7) = toLowerCase (js ''Dota'')"
    "lowerName dota2 \<noteq> toLowerCase (js ''Dota'')"
    unfolding dota_lower by (simp_all add: sample_app_def dota2_def js_def)
  have few: "length (filter (\<lambda>r. lowerName (item r) = toLowerCase (js ''Dota'')) dota_candidates)
               \<le> 100"
    by (rule order_trans [OF length_filter_le]) (simp add: dota_candidates_def)
  note t = exact_match_dominance [OF sc, of "js ''Dota''"]
  from t c n few
  have "\<lparr>hit = item (dota_candidates ! 1), relevanceScore = 100000\<rparr>
          \<in> set (rank_results (js ''Dota'') dota_candidates)"
    by (elim conjE allE [of _ "dota_candidates ! 1"] allE [of _ "3 / 10"]) simp
  moreover from t n
  have "relevanceScore (rank_results (js ''Dota'') dota_candidates ! 1)
          < relevanceScore (rank_results (js ''Dota'') dota_candidates ! 0)"
    by (elim conjE allE [of _ "0::nat"] allE [of _ "1::nat"]) (simp add: dota_ranked)
  ultimately show ?thesis
    using c n by (simp add: dota_ranked)
qed

text \<open>
  C1, as stated, fails where more than 100 candidates carry the name asked for: of 101
  candidates named like the query, each of the quality 0.1, the last one is not in the
  result list.
\<close>

theorem exact_match_cut_counterexample:
  "\<lparr>item = sample_app 100, score = Some (1 / 10)\<rparr>
       \<in> set (fuse_search sample_engine (map sample_app [0..<101]) (js ''Dota'') 200)
   \<and> lowerName (sample_app 100) = toLowerCase (js ''Dota'')
   \<and> sample_app 100
       \<notin> hit ` set (rank_results (js ''Dota'')
                     (fuse_search sample_engine (map sample_app [0..<101]) (js ''Dota'') 200))"
proof -
  let ?cands = "fuse_search sample_engine (map sample_app [0..<101]) (js ''Dota'') 200"
  have cands: "?cands = map (\<lambda>i. \<lparr>item = sample_app i, score = Some (1 / 10)\<rparr>) [0..<101]"
    by (simp add: fuse_search_def sample_engine_def comp_def)
  have n: "lowerName (sample_app i) = toLowerCase (js ''Dota'')" for i
    by (simp add: dota_lower sample_app_def)
  have "rank_results (js ''Dota'') ?cands
          = take 100 (map (\<lambda>r. \<lparr>hit = item r, relevanceScore = 100000\<rparr>) ?cands)"
    unfolding cands by (intro all_exact_ranked) (auto simp: n num_or_def)
  also have "\<dots> = map (\<lambda>i. \<lparr>hit = sample_app i, relevanceScore = 100000\<rparr>) [0..<100]"
    unfolding cands by (simp add: take_map comp_def)
  finally have "hit ` set (rank_results (js ''Dota'') ?cands) = sample_app ` {0..<100}"
    by (simp add: image_image)
  moreover have "sample_app 100 \<notin> sample_app ` {0..<100}"
    by (auto simp: sample_app_def)
  moreover have "\<lparr>item = sample_app 100, score = Some (1 / 10)\<rparr> \<in> set ?cands"
    unfolding cands by simp
  ultimately show ?thesis using n by simp
qed

text \<open>The filter reads \<open>(r.score || 1) > 0.4\<close>: a quality of exactly 0, the best there
  is, counts as 1 there, and the candidate is dropped.\<close>

lemma perfect_quality_dropped:
  "rank_results (js ''Dota'') [\<lparr>item = sample_app 7, score = Some 0\<rparr>] = []"
  by (simp add: rank_results_def keep_def num_or_def)

subsection \<open>The handler\<close>

lemma search_handler_miss:
  assumes "trim (case q of None \<Rightarrow> [] | Some x \<Rightarrow> x) = query" "query \<noteq> []"
    and "steamApps s \<noteq> []" "fuseInstance s = Some idx"
    and "cache_get c now (js ''search_'' @ toLowerCase query) = None"
  shows "search_handler engine io now s c q pageQ perPageQ =
           (Json \<lparr>total = length (rank_results query (fuse_search engine idx query 200)),
                  page = effective_page pageQ, perPage = effective_perPage perPageQ,
                  games = js_slice (rank_results query (fuse_search engine idx query 200))
                            ((effective_page pageQ - 1) * effective_perPage perPageQ)
                            (effective_page pageQ * effective_perPage perPageQ),
                  totalPages =
                    \<lceil>real (length (rank_results query (fuse_search engine idx query 200)))
                       / real_of_int (effective_perPage perPageQ)\<rceil>\<rparr>,
            s, cache_set c now (js ''search_'' @ toLowerCase query)
                 (rank_results query (fuse_search engine idx query 200)) (Some 300))"
  using assms by (simp add: search_handler_def getAppList_loaded Let_def)

lemma rank_results_length: "length (rank_results query results) \<le> 100"
  by (simp add: rank_results_def Let_def)

lemma fuse_search_length: "length (fuse_search engine idx query limit) \<le> limit"
  by (simp add: fuse_search_def)

lemma cache_get_ok:
  "search_cache_ok c \<Longrightarrow> cache_get c now k = Some f \<Longrightarrow> length f \<le> 100"
  by (auto simp: search_cache_ok_def cache_get_def split: option.splits if_splits)

lemma cache_set_ok:
  "search_cache_ok c \<Longrightarrow> length f \<le> 100 \<Longrightarrow> search_cache_ok (cache_set c now k f t)"
  by (auto simp: search_cache_ok_def cache_set_def)

lemma js_slice_length: "length (js_slice xs a b) \<le> length xs"
  by (simp add: js_slice_def Let_def)

lemma search_handler_listing:
  assumes "search_cache_ok c"
    and "listing_of (fst (search_handler engine io now s c q pageQ perPageQ)) = Some l"
  shows "total l \<le> 100 \<and> length (games l) \<le> total l"
  using assms cache_get_ok [of c now] rank_results_length js_slice_length
  by (auto simp: search_handler_def Let_def
      split: sum.splits if_splits prod.splits option.splits)

lemma search_handler_cache:
  assumes "search_cache_ok c"
  shows "search_cache_ok (snd (snd (search_handler engine io now s c q pageQ perPageQ)))"
  using assms cache_set_ok [of c _ now] rank_results_length
  by (auto simp: search_handler_def Let_def
      split: sum.splits if_splits prod.splits option.splits)

lemma search_handler_hit:
  assumes "trim (case q of None \<Rightarrow> [] | Some x \<Rightarrow> x) = query" "query \<noteq> []"
    and "steamApps s \<noteq> []" "fuseInstance s = Some idx"
    and "cache_get c now (js ''search_'' @ toLowerCase query) = Some f"
  shows "search_handler engine io now s c q pageQ perPageQ =
           (Json \<lparr>total = length f,
                  page = effective_page pageQ, perPage = effective_perPage perPageQ,
                  games = js_slice f
                            ((effective_page pageQ - 1) * effective_perPage perPageQ)
                            (effective_page pageQ * effective_perPage perPageQ),
                  totalPages = \<lceil>real (length f) / real_of_int (effective_perPage perPageQ)\<rceil>\<rparr>,
            s, c)"
  using assms by (simp add: search_handler_def getAppList_loaded Let_def)

lemma cache_get_written: "0 < t \<Longrightarrow> cache_get (cache_set c now k v (Some t)) now k = Some v"
  by (simp add: cache_get_def cache_set_def live_def)

lemma search_handler_page:
  assumes "listing_of (fst (search_handler engine io now s c q pageQ perPageQ)) = Some l"
  shows "page l = effective_page pageQ \<and> perPage l = effective_perPage perPageQ
         \<and> (\<exists>f. cache_get (snd (snd (search_handler engine io now s c q pageQ perPageQ))) now
                   (js ''search_'' @ toLowerCase (trim (case q of None \<Rightarrow> [] | Some x \<Rightarrow> x)))
                  = Some f
                \<and> total l = length f
                \<and> games l = js_slice f ((effective_page pageQ - 1) * effective_perPage perPageQ)
                              (effective_page pageQ * effective_perPage perPageQ)
                \<and> totalPages l = \<lceil>real (length f) / real_of_int (effective_perPage perPageQ)\<rceil>)"
  using assms
  by (auto simp: search_handler_def Let_def cache_get_written
      split: sum.splits if_splits prod.splits option.splits)

lemma games_handler_page:
  assumes "listing_of (fst (games_handler io s pageQ perPageQ)) = Some l"
  shows "page l = effective_page pageQ \<and> perPage l = effective_perPage perPageQ
         \<and> total l = length (steamApps (snd (games_handler io s pageQ perPageQ)))
         \<and> games l = js_slice (steamApps (snd (games_handler io s pageQ perPageQ)))
                        ((effective_page pageQ - 1) * effective_perPage perPageQ)
                        (effective_page pageQ * effective_perPage perPageQ)"
  using assms
  by (auto simp: games_handler_def getAppList_def Let_def
      split: sum.splits if_splits prod.splits option.splits)

lemma games_handler_loaded:
  assumes "steamApps s \<noteq> []"
  shows "games_handler io s pageQ perPageQ =
           (Json \<lparr>total = length (steamApps s), page = effective_page pageQ,
                  perPage = effective_perPage perPageQ,
                  games = js_slice (steamApps s)
                            ((effective_page pageQ - 1) * effective_perPage perPageQ)
                            (effective_page pageQ * effective_perPage perPageQ)\<rparr>, s)"
  using assms by (simp add: games_handler_def getAppList_loaded Let_def)

lemma js_slice_first: "js_slice xs 0 (int e) = take e xs"
  using js_slice_window [of xs 0 e] by simp

lemma default_page_size:
  "effective_page None = 1" "effective_perPage None = 16" "effective_perPage (Some 0) = 16"
  "effective_page (Some 0) = 1"
  by (simp_all add: effective_page_def effective_perPage_def int_or_def)

text \<open>
  C9.  The result set of \<open>/games/search\<close> has at most 100 items.  When the handler
  finds no live entry for the query of a loaded catalog, it asks the engine for at most
  200 candidates (the result is that of the first 200 candidates of the engine), it
  cuts the ranked list to 100 before it caches it for 300 seconds, and it reports the
  length of that list as the total; when it finds a live entry, it serves that list
  and leaves the cache as it is.  No cached list is longer than 100, and so the
  reported total never exceeds 100, however many items of the catalog match.
\<close>

theorem search_total_at_most_100:
  assumes "search_cache_ok c"
  shows "(\<forall>l. listing_of (fst (search_handler engine io now s c q pageQ perPageQ)) = Some l
            \<longrightarrow> total l \<le> 100 \<and> length (games l) \<le> 100)
         \<and> search_cache_ok (snd (snd (search_handler engine io now s c q pageQ perPageQ)))
         \<and> (\<forall>query idx. trim (case q of None \<Rightarrow> [] | Some x \<Rightarrow> x) = query \<and> query \<noteq> []
               \<and> steamApps s \<noteq> [] \<and> fuseInstance s = Some idx
               \<and> cache_get c now (js ''search_'' @ toLowerCase query) = None
             \<longrightarrow> search_handler engine io now s c q pageQ perPageQ =
                   (Json \<lparr>total = length (rank_results query (take 200 (engine idx query))),
                          page = effective_page pageQ, perPage = effective_perPage perPageQ,
                          games = js_slice (rank_results query (take 200 (engine idx query)))
                                    ((effective_page pageQ - 1) * effective_perPage perPageQ)
                                    (effective_page pageQ * effective_perPage perPageQ),
                          totalPages =
                            \<lceil>real (length (rank_results query (take 200 (engine idx query))))
                               / real_of_int (effective_perPage perPageQ)\<rceil>\<rparr>,
                    s,
                    c(js ''search_'' @ toLowerCase query \<mapsto>
                        \<lparr>val = rank_results query (take 200 (engine idx query)),
                         stored = now, ttl = 300\<rparr>))
                 \<and> rank_results query (take 200 (engine idx query)) =
                     take 100 (sort_key (\<lambda>h. - relevanceScore h)
                       (map (score_hit (toLowerCase query))
                          (filter (keep (query_words (toLowerCase query)))
                             (take 200 (engine idx query)))))
                 \<and> length (rank_results query (take 200 (engine idx query))) \<le> 100)
         \<and> (\<forall>query idx f. trim (case q of None \<Rightarrow> [] | Some x \<Rightarrow> x) = query \<and> query \<noteq> []
               \<and> steamApps s \<noteq> [] \<and> fuseInstance s = Some idx
               \<and> cache_get c now (js ''search_'' @ toLowerCase query) = Some f
             \<longrightarrow> search_handler engine io now s c q pageQ perPageQ =
                   (Json \<lparr>total = length f,
                          page = effective_page pageQ, perPage = effective_perPage perPageQ,
                          games = js_slice f
                                    ((effective_page pageQ - 1) * effective_perPage perPageQ)
                                    (effective_page pageQ * effective_perPage perPageQ),
                          totalPages =
                            \<lceil>real (length f) / real_of_int (effective_perPage perPageQ)\<rceil>\<rparr>,
                    s, c)
                 \<and> length f \<le> 100)"
proof (intro conjI allI impI)
  fix l
  assume "listing_of (fst (search_handler engine io now s c q pageQ perPageQ)) = Some l"
  from search_handler_listing [OF assms this]
  show "total l \<le> 100" "length (games l) \<le> 100" by simp_all
next
  show "search_cache_ok (snd (snd (search_handler engine io now s c q pageQ perPageQ)))"
    using assms by (rule search_handler_cache)
next
  fix query idx
  assume a: "trim (case q of None \<Rightarrow> [] | Some x \<Rightarrow> x) = query \<and> query \<noteq> []
               \<and> steamApps s \<noteq> [] \<and> fuseInstance s = Some idx
               \<and> cache_get c now (js ''search_'' @ toLowerCase query) = None"
  then show "search_handler engine io now s c q pageQ perPageQ =
                   (Json \<lparr>total = length (rank_results query (take 200 (engine idx query))),
                          page = effective_page pageQ, perPage = effective_perPage perPageQ,
                          games = js_slice (rank_results query (take 200 (engine idx query)))
                                    ((effective_page pageQ - 1) * effective_perPage perPageQ)
                                    (effective_page pageQ * effective_perPage perPageQ),
                          totalPages =
                            \<lceil>real (length (rank_results query (take 200 (engine idx query))))
                               / real_of_int (effective_perPage perPageQ)\<rceil>\<rparr>,
                    s,
                    c(js ''search_'' @ toLowerCase query \<mapsto>
                        \<lparr>val = rank_results query (take 200 (engine idx query)),
                         stored = now, ttl = 300\<rparr>))"
    using search_handler_miss [of q query s idx c now engine io pageQ perPageQ]
    by (simp add: fuse_search_def cache_set_def)
  show "rank_results query (take 200 (engine idx query)) =
                     take 100 (sort_key (\<lambda>h. - relevanceScore h)
                       (map (score_hit (toLowerCase query))
                          (filter (keep (query_words (toLowerCase query)))
                             (take 200 (engine idx query)))))"
    by (simp add: rank_results_def Let_def)
  show "length (rank_results query (take 200 (engine idx query))) \<le> 100"
    by (rule rank_results_length)
next
  fix query idx f
  assume a: "trim (case q of None \<Rightarrow> [] | Some x \<Rightarrow> x) = query \<and> query \<noteq> []
               \<and> steamApps s \<noteq> [] \<and> fuseInstance s = Some idx
               \<and> cache_get c now (js ''search_'' @ toLowerCase query) = Some f"
  then show "search_handler engine io now s c q pageQ perPageQ =
                   (Json \<lparr>total = length f,
                          page = effective_page pageQ, perPage = effective_perPage perPageQ,
                          games = js_slice f
                                    ((effective_page pageQ - 1) * effective_perPage perPageQ)
                                    (effective_page pageQ * effective_perPage perPageQ),
                          totalPages =
                            \<lceil>real (length f) / real_of_int (effective_perPage perPageQ)\<rceil>\<rparr>,
                    s, c)"
    using search_handler_hit [of q query s idx c now f engine io pageQ perPageQ] by simp
  from a assms show "length f \<le> 100"
    using cache_get_ok by blast
qed

lemma trim_dota: "trim (js ''Dota'') = js ''Dota''"
  by (simp add: trim_def js_def is_space_def)

lemma sample_search_150:
  "rank_results (js ''Dota'') (fuse_search sample_engine (map sample_app [0..<150]) (js ''Dota'') 200)
     = map (\<lambda>i. \<lparr>hit = sample_app i, relevanceScore = 100000\<rparr>) [0..<100]"
proof -
  let ?cands = "fuse_search sample_engine (map sample_app [0..<150]) (js ''Dota'') 200"
  have cands: "?cands = map (\<lambda>i. \<lparr>item = sample_app i, score = Some (1 / 10)\<rparr>) [0..<150]"
    by (simp add: fuse_search_def sample_engine_def comp_def)
  have n: "lowerName (sample_app i) = toLowerCase (js ''Dota'')" for i
    by (simp add: dota_lower sample_app_def)
  have "rank_results (js ''Dota'') ?cands
          = take 100 (map (\<lambda>r. \<lparr>hit = item r, relevanceScore = 100000\<rparr>) ?cands)"
    unfolding cands by (intro all_exact_ranked) (auto simp: n num_or_def)
  also have "\<dots> = map (\<lambda>i. \<lparr>hit = sample_app i, relevanceScore = 100000\<rparr>) [0..<100]"
    unfolding cands by (simp add: take_map comp_def)
  finally show ?thesis .
qed

theorem search_total_at_most_100_witness:
  "search_cache_ok Map.empty
   \<and> trim (js ''Dota'') \<noteq> []
   \<and> steamApps (sample_server 150) \<noteq> []
   \<and> fuseInstance (sample_server 150) = Some (map sample_app [0..<150])
   \<and> map_option total (listing_of (fst (search_handler sample_engine offline 0
        (sample_server 150) Map.empty (Some (js ''Dota'')) None None))) = Some 100
   \<and> map_option ttl (snd (snd (search_handler sample_engine offline 0
        (sample_server 150) Map.empty (Some (js ''Dota'')) None None))
          (js ''search_'' @ toLowerCase (js ''Dota''))) = Some 300
   \<and> search_cache_ok (snd (snd (search_handler sample_engine offline 0 (sample_server 150)
        Map.empty (Some (js ''Dota'')) None None)))
   \<and> map_option total (listing_of (fst (search_handler sample_engine offline 5
        (sample_server 150)
        (snd (snd (search_handler sample_engine offline 0 (sample_server 150)
           Map.empty (Some (js ''Dota'')) None None)))
        (Some (js ''Dota'')) None None))) = Some 100
   \<and> snd (snd (search_handler sample_engine offline 5 (sample_server 150)
        (snd (snd (search_handler sample_engine offline 0 (sample_server 150)
           Map.empty (Some (js ''Dota'')) None None)))
        (Some (js ''Dota'')) None None))
     = snd (snd (search_handler sample_engine offline 0 (sample_server 150)
           Map.empty (Some (js ''Dota'')) None None))"
proof -
  let ?q = "Some (js ''Dota'')"
  let ?key = "js ''search_'' @ toLowerCase (js ''Dota'')"
  let ?idx = "map sample_app [0..<150]"
  let ?F = "rank_results (js ''Dota'') (take 200 (sample_engine ?idx (js ''Dota'')))"
  let ?H1 = "search_handler sample_engine offline 0 (sample_server 150) Map.empty ?q None None"
  let ?c1 = "(Map.empty :: (js_string, search_hit list) cache)
               (?key \<mapsto> \<lparr>val = ?F, stored = 0, ttl = 300\<rparr>)"
  have ok: "search_cache_ok Map.empty" by (simp add: search_cache_ok_def)
  have t: "trim (case ?q of None \<Rightarrow> [] | Some x \<Rightarrow> x) = js ''Dota''"
    by (simp add: trim_dota)
  have ne: "js ''Dota'' \<noteq> []" by (simp add: js_def)
  have s: "steamApps (sample_server 150) \<noteq> []"
    "fuseInstance (sample_server 150) = Some ?idx"
    by (simp_all add: sample_server_def)
  have m: "cache_get (Map.empty :: (js_string, search_hit list) cache) 0 ?key = None"
    by (simp add: cache_get_def)
  have len: "length ?F = 100"
    using sample_search_150 by (simp add: fuse_search_def)
  note T1 = search_total_at_most_100 [OF ok, of sample_engine offline 0 "sample_server 150"
      ?q None None]
  from T1 t ne s m have H1: "?H1 =
      (Json \<lparr>total = length ?F,
             page = effective_page None, perPage = effective_perPage None,
             games = js_slice ?F ((effective_page None - 1) * effective_perPage None)
                       (effective_page None * effective_perPage None),
             totalPages = \<lceil>real (length ?F) / real_of_int (effective_perPage None)\<rceil>\<rparr>,
       sample_server 150, ?c1)"
    by blast
  from T1 have ok1: "search_cache_ok (snd (snd ?H1))" by blast
  have c1: "snd (snd ?H1) = ?c1" by (simp add: H1)
  have h: "cache_get ?c1 5 ?key = Some ?F"
    by (simp add: cache_get_def live_def)
  note T2 = search_total_at_most_100 [OF ok1, of sample_engine offline 5 "sample_server 150"
      ?q None None]
  from T2 t ne s h have H2: "search_handler sample_engine offline 5 (sample_server 150)
        (snd (snd ?H1)) ?q None None =
      (Json \<lparr>total = length ?F,
             page = effective_page None, perPage = effective_perPage None,
             games = js_slice ?F ((effective_page None - 1) * effective_perPage None)
                       (effective_page None * effective_perPage None),
             totalPages = \<lceil>real (length ?F) / real_of_int (effective_perPage None)\<rceil>\<rparr>,
       sample_server 150, snd (snd ?H1))"
    unfolding c1 by blast
  show ?thesis
    apply (intro conjI)
            apply (rule ok)
           apply (simp add: trim_dota ne)
          apply (rule s(1))
         apply (rule s(2))
        apply (simp add: H1 len)
       apply (simp add: H1)
      apply (rule ok1)
     apply (simp add: H2 len)
    apply (simp add: H2)
    done
qed

text \<open>
  C10.  In both handlers the page is \<open>max 1\<close> of the parsed parameter, an unparsable
  or zero parameter giving 1, and the page size is \<open>min 100\<close> of the parsed parameter,
  an unparsable or zero parameter giving the default 16; a negative parsed \<open>perPage\<close> is
  passed on as it is.  Every listing reports these two values and serves the slice from
  \<open>(page - 1) * perPage\<close> to \<open>page * perPage\<close>, of the catalog in \<open>/games\<close> and of the
  ranked list, which is the live entry of the cache after the request, in
  \<open>/games/search\<close>.  So \<open>perPage = 0\<close> yields the first 16 items rather than an empty
  page.
\<close>

theorem pagination_parameters:
  "(\<forall>l. listing_of (fst (games_handler io s pageQ perPageQ)) = Some l \<longrightarrow>
          page l = effective_page pageQ \<and> perPage l = effective_perPage perPageQ
          \<and> total l = length (steamApps (snd (games_handler io s pageQ perPageQ)))
          \<and> games l = js_slice (steamApps (snd (games_handler io s pageQ perPageQ)))
                         ((effective_page pageQ - 1) * effective_perPage perPageQ)
                         (effective_page pageQ * effective_perPage perPageQ))
   \<and> (steamApps s \<noteq> [] \<longrightarrow>
         games_handler io s pageQ perPageQ =
           (Json \<lparr>total = length (steamApps s), page = effective_page pageQ,
                  perPage = effective_perPage perPageQ,
                  games = js_slice (steamApps s)
                            ((effective_page pageQ - 1) * effective_perPage perPageQ)
                            (effective_page pageQ * effective_perPage perPageQ)\<rparr>, s)
         \<and> games_of (fst (games_handler io s None (Some 0))) = take 16 (steamApps s)
         \<and> games_of (fst (games_handler io s (Some 0) None)) = take 16 (steamApps s))
   \<and> (\<forall>l. listing_of (fst (search_handler engine io now s c q pageQ perPageQ)) = Some l \<longrightarrow>
          page l = effective_page pageQ \<and> perPage l = effective_perPage perPageQ
          \<and> (\<exists>f. cache_get (snd (snd (search_handler engine io now s c q pageQ perPageQ))) now
                    (js ''search_'' @ toLowerCase (trim (case q of None \<Rightarrow> [] | Some x \<Rightarrow> x)))
                   = Some f
                 \<and> total l = length f
                 \<and> games l = js_slice f
                               ((effective_page pageQ - 1) * effective_perPage perPageQ)
                               (effective_page pageQ * effective_perPage perPageQ)
                 \<and> totalPages l
                     = \<lceil>real (length f) / real_of_int (effective_perPage perPageQ)\<rceil>))
   \<and> (\<forall>query idx. trim (case q of None \<Rightarrow> [] | Some x \<Rightarrow> x) = query \<and> query \<noteq> []
         \<and> steamApps s \<noteq> [] \<and> fuseInstance s = Some idx
         \<and> cache_get c now (js ''search_'' @ toLowerCase query) = None
       \<longrightarrow> map_option games
             (listing_of (fst (search_handler engine io now s c q None (Some 0))))
           = Some (take 16 (rank_results query (fuse_search engine idx query 200))))
   \<and> effective_page None = 1 \<and> effective_page (Some 0) = 1
   \<and> effective_page (Some n) = max 1 n
   \<and> effective_perPage None = 16 \<and> effective_perPage (Some 0) = 16
   \<and> (n \<noteq> 0 \<longrightarrow> effective_perPage (Some n) = min 100 n)
   \<and> (n < 0 \<longrightarrow> effective_perPage (Some n) = n)"
proof (intro conjI allI impI)
  fix l
  assume "listing_of (fst (games_handler io s pageQ perPageQ)) = Some l"
  from games_handler_page [OF this]
  show "page l = effective_page pageQ" "perPage l = effective_perPage perPageQ"
    "total l = length (steamApps (snd (games_handler io s pageQ perPageQ)))"
    "games l = js_slice (steamApps (snd (games_handler io s pageQ perPageQ)))
                         ((effective_page pageQ - 1) * effective_perPage perPageQ)
                         (effective_page pageQ * effective_perPage perPageQ)"
    by simp_all
next
  assume a: "steamApps s \<noteq> []"
  then show "games_handler io s pageQ perPageQ =
           (Json \<lparr>total = length (steamApps s), page = effective_page pageQ,
                  perPage = effective_perPage perPageQ,
                  games = js_slice (steamApps s)
                            ((effective_page pageQ - 1) * effective_perPage perPageQ)
                            (effective_page pageQ * effective_perPage perPageQ)\<rparr>, s)"
    by (rule games_handler_loaded)
  from a show "games_of (fst (games_handler io s None (Some 0))) = take 16 (steamApps s)"
    using js_slice_first [of "steamApps s" 16]
    by (simp add: games_handler_loaded default_page_size)
  from a show "games_of (fst (games_handler io s (Some 0) None)) = take 16 (steamApps s)"
    using js_slice_first [of "steamApps s" 16]
    by (simp add: games_handler_loaded default_page_size)
next
  fix l
  assume "listing_of (fst (search_handler engine io now s c q pageQ perPageQ)) = Some l"
  from search_handler_page [OF this]
  show "page l = effective_page pageQ" "perPage l = effective_perPage perPageQ"
    "\<exists>f. cache_get (snd (snd (search_handler engine io now s c q pageQ perPageQ))) now
                    (js ''search_'' @ toLowerCase (trim (case q of None \<Rightarrow> [] | Some x \<Rightarrow> x)))
                   = Some f
                 \<and> total l = length f
                 \<and> games l = js_slice f
                               ((effective_page pageQ - 1) * effective_perPage perPageQ)
                               (effective_page pageQ * effective_perPage perPageQ)
                 \<and> totalPages l
                     = \<lceil>real (length f) / real_of_int (effective_perPage perPageQ)\<rceil>"
    by simp_all
next
  fix query idx
  assume "trim (case q of None \<Rightarrow> [] | Some x \<Rightarrow> x) = query \<and> query \<noteq> []
         \<and> steamApps s \<noteq> [] \<and> fuseInstance s = Some idx
         \<and> cache_get c now (js ''search_'' @ toLowerCase query) = None"
  then show "map_option games
             (listing_of (fst (search_handler engine io now s c q None (Some 0))))
           = Some (take 16 (rank_results query (fuse_search engine idx query 200)))"
    using search_handler_miss [of q query s idx c now engine io None "Some 0"]
      js_slice_first [of "rank_results query (fuse_search engine idx query 200)" 16]
    by (simp add: default_page_size)
qed (simp_all add: effective_page_def effective_perPage_def int_or_def)

lemma sample_search_20:
  "rank_results (js ''Dota'') (fuse_search sample_engine (map sample_app [0..<20]) (js ''Dota'') 200)
     = map (\<lambda>i. \<lparr>hit = sample_app i, relevanceScore = 100000\<rparr>) [0..<20]"
proof -
  let ?cands = "fuse_search sample_engine (map sample_app [0..<20]) (js ''Dota'') 200"
  have cands: "?cands = map (\<lambda>i. \<lparr>item = sample_app i, score = Some (1 / 10)\<rparr>) [0..<20]"
    by (simp add: fuse_search_def sample_engine_def comp_def)
  have n: "lowerName (sample_app i) = toLowerCase (js ''Dota'')" for i
    by (simp add: dota_lower sample_app_def)
  have "rank_results (js ''Dota'') ?cands
          = take 100 (map (\<lambda>r. \<lparr>hit = item r, relevanceScore = 100000\<rparr>) ?cands)"
    unfolding cands by (intro all_exact_ranked) (auto simp: n num_or_def)
  also have "\<dots> = map (\<lambda>i. \<lparr>hit = sample_app i, relevanceScore = 100000\<rparr>) [0..<20]"
    unfolding cands by (simp add: comp_def)
  finally show ?thesis .
qed

theorem pagination_parameters_witness:
  "steamApps (sample_server 20) \<noteq> []
   \<and> games_handler offline (sample_server 20) (Some 0) (Some 0)
       = (Json \<lparr>total = 20, page = 1, perPage = 16, games = map sample_app [0..<16]\<rparr>,
          sample_server 20)
   \<and> games_of (fst (games_handler offline (sample_server 20) None (Some 0)))
       = map sample_app [0..<16]
   \<and> map_option games (listing_of (fst (search_handler sample_engine offline 0
        (sample_server 20) Map.empty (Some (js ''Dota'')) None (Some 0))))
       = Some (map (\<lambda>i. \<lparr>hit = sample_app i, relevanceScore = 100000\<rparr>) [0..<16])
   \<and> map_option page (listing_of (fst (search_handler sample_engine offline 0
        (sample_server 20) Map.empty (Some (js ''Dota'')) (Some 0) (Some 0)))) = Some 1
   \<and> map_option perPage (listing_of (fst (search_handler sample_engine offline 0
        (sample_server 20) Map.empty (Some (js ''Dota'')) (Some 0) (Some 0)))) = Some 16
   \<and> map_option total (listing_of (fst (search_handler sample_engine offline 0
        (sample_server 20) Map.empty (Some (js ''Dota'')) (Some 0) (Some 0)))) = Some 20
   \<and> effective_page (Some (- 4)) = 1 \<and> effective_perPage (Some (- 5)) = - 5
   \<and> (- 5 :: int) \<noteq> 0 \<and> (- 5 :: int) < 0
   \<and> effective_perPage (Some (- 5)) = min 100 (- 5)"
proof -
  let ?q = "Some (js ''Dota'')"
  let ?idx = "map sample_app [0..<20]"
  let ?F = "rank_results (js ''Dota'') (fuse_search sample_engine ?idx (js ''Dota'') 200)"
  let ?H = "search_handler sample_engine offline 0 (sample_server 20) Map.empty ?q
              (Some 0) (Some 0)"
  have t: "trim (case ?q of None \<Rightarrow> [] | Some x \<Rightarrow> x) = js ''Dota''"
    by (simp add: trim_dota)
  have ne: "js ''Dota'' \<noteq> []" by (simp add: js_def)
  have s: "steamApps (sample_server 20) \<noteq> []"
    "fuseInstance (sample_server 20) = Some ?idx"
    "steamApps (sample_server 20) = ?idx"
    by (simp_all add: sample_server_def)
  have m: "cache_get (Map.empty :: (js_string, search_hit list) cache) 0
             (js ''search_'' @ toLowerCase (js ''Dota'')) = None"
    by (simp add: cache_get_def)
  have tk: "take 16 ?idx = map sample_app [0..<16]"
    "take 16 ?F = map (\<lambda>i. \<lparr>hit = sample_app i, relevanceScore = 100000\<rparr>) [0..<16]"
    "length ?F = 20"
    by (simp_all add: sample_search_20 take_map)
  have sl: "js_slice ?idx 0 16 = take 16 ?idx"
    using js_slice_first [of ?idx 16] by simp
  have "\<exists>l. listing_of (fst ?H) = Some l"
    using search_handler_miss [OF t ne s(1,2) m, of sample_engine offline "Some 0" "Some 0"]
    by simp
  then obtain l where l: "listing_of (fst ?H) = Some l" by blast
  note T = pagination_parameters [of offline "sample_server 20" "Some 0" "Some 0"
      sample_engine 0 Map.empty ?q "- 5"]
  from T l have pl: "page l = effective_page (Some 0)" "perPage l = effective_perPage (Some 0)"
    by blast+
  from T l obtain f where f: "cache_get (snd (snd ?H)) 0
        (js ''search_'' @ toLowerCase (trim (case ?q of None \<Rightarrow> [] | Some x \<Rightarrow> x))) = Some f"
    "total l = length f"
    by blast
  have "snd (snd ?H) = cache_set Map.empty 0 (js ''search_'' @ toLowerCase (js ''Dota''))
          ?F (Some 300)"
    using search_handler_miss [OF t ne s(1,2) m, of sample_engine offline "Some 0" "Some 0"]
    by simp
  with f(1) t have "f = ?F" by (simp add: cache_get_written)
  with f(2) tk(3) have tl: "total l = 20" by simp
  from T s(1) have g: "games_handler offline (sample_server 20) (Some 0) (Some 0) =
           (Json \<lparr>total = length (steamApps (sample_server 20)), page = effective_page (Some 0),
                  perPage = effective_perPage (Some 0),
                  games = js_slice (steamApps (sample_server 20))
                            ((effective_page (Some 0) - 1) * effective_perPage (Some 0))
                            (effective_page (Some 0) * effective_perPage (Some 0))\<rparr>,
            sample_server 20)"
    "games_of (fst (games_handler offline (sample_server 20) None (Some 0)))
       = take 16 (steamApps (sample_server 20))"
    by blast+
  from T t ne s(1,2) m have sg: "map_option games (listing_of (fst (search_handler sample_engine
        offline 0 (sample_server 20) Map.empty ?q None (Some 0)))) = Some (take 16 ?F)"
    by blast
  from T have e: "effective_page (Some 0) = 1" "effective_perPage (Some 0) = 16"
    "effective_perPage (Some (- 5)) = - 5" "effective_perPage (Some (- 5)) = min 100 (- 5)"
    "effective_page (Some (- 5)) = max 1 (- 5)"
    by simp_all
  have e4: "effective_page (Some (- 4)) = 1"
    by (simp add: effective_page_def int_or_def)
  show ?thesis
    apply (intro conjI)
               apply (rule s(1))
              apply (simp add: g(1) e s(3) sl tk(1))
             apply (simp add: g(2) s(3) tk(1))
            apply (simp only: sg tk(2))
           apply (simp add: l pl e)
          apply (simp add: l pl e)
         apply (simp add: l tl)
        apply (rule e4)
       apply (rule e(3))
      apply simp
     apply simp
    apply (rule e(4))
    done
qed

subsection \<open>Words without symbols in the normalized name\<close>

lemma split_ws_no_space: "w \<in> set (split_ws s) \<Longrightarrow> c \<in> set w \<Longrightarrow> \<not> is_space c"
proof (induction s arbitrary: w rule: split_ws.induct)
  case 1
  then show ?case by simp
next
  case (2 d ds)
  show ?case
  proof (cases "is_space d")
    case True
    with "2.prems" have "w \<in> set (split_ws (dropWhile is_space ds))" by auto
    with True "2.IH"(1) "2.prems"(2) show ?thesis by blast
  next
    case False
    from split_ws_head [of ds] obtain v vs where v: "split_ws ds = v # vs"
      by (cases "split_ws ds") auto
    with False "2.prems" have "w = d # v \<or> w \<in> set vs" by simp
    then show ?thesis
    proof
      assume w: "w = d # v"
      show ?thesis
      proof (cases "c = d")
        case True
        with False show ?thesis by simp
      next
        case ne: False
        with w "2.prems"(2) have "c \<in> set v" by simp
        moreover from v have "v \<in> set (split_ws ds)" by simp
        ultimately show ?thesis using False "2.IH"(2) by blast
      qed
    next
      assume "w \<in> set vs"
      with v have "w \<in> set (split_ws ds)" by simp
      with False "2.IH"(2) "2.prems"(2) show ?thesis by blast
    qed
  qed
qed

lemma query_words_plain:
  "w \<in> set (query_words s) \<Longrightarrow> w \<noteq> [] \<and> (\<forall>c \<in> set w. \<not> is_space c)"
  by (auto simp: query_words_def dest: split_ws_no_space)

lemma strip_marks_sublist:
  assumes "sublist w s" "\<forall>c \<in> set w. c \<noteq> 174 \<and> c \<noteq> 8482 \<and> c \<noteq> 169 \<and> c \<noteq> 58"
  shows "sublist w (strip_marks s)"
proof -
  from assms(1) obtain ps ss where "s = ps @ w @ ss" unfolding sublist_def by blast
  moreover from assms(2) have "strip_marks w = w"
    unfolding strip_marks_def by (simp add: filter_id_conv)
  ultimately have "strip_marks s = strip_marks ps @ w @ strip_marks ss"
    by (simp add: strip_marks_def)
  then show ?thesis by simp
qed

lemma dropWhile_before_word:
  assumes "w \<noteq> []" "\<forall>c \<in> set w. \<not> is_space c"
  shows "dropWhile is_space (ps @ w @ ss) = dropWhile is_space ps @ w @ ss"
proof (cases "\<forall>c \<in> set ps. is_space c")
  case True
  from assms obtain c cs where "w = c # cs" "\<not> is_space c" by (cases w) auto
  with True show ?thesis by (simp add: dropWhile_append)
next
  case False
  then show ?thesis by (auto simp: dropWhile_append)
qed

lemma dropWhile_sublist:
  assumes "w \<noteq> []" "\<forall>c \<in> set w. \<not> is_space c" "sublist w s"
  shows "sublist w (dropWhile is_space s)"
proof -
  from assms(3) obtain ps ss where "s = ps @ w @ ss" unfolding sublist_def by blast
  with assms(1,2) have "dropWhile is_space s = dropWhile is_space ps @ w @ ss"
    by (simp add: dropWhile_before_word)
  then show ?thesis by simp
qed

lemma trim_sublist:
  assumes "w \<noteq> []" "\<forall>c \<in> set w. \<not> is_space c" "sublist w s"
  shows "sublist w (trim s)"
proof -
  from assms have "sublist w (dropWhile is_space s)" by (rule dropWhile_sublist)
  then have "sublist (rev w) (rev (dropWhile is_space s))" by simp
  with assms(1,2) have "sublist (rev w) (dropWhile is_space (rev (dropWhile is_space s)))"
    by (intro dropWhile_sublist) simp_all
  then show ?thesis unfolding trim_def by (simp add: sublist_rev_right)
qed

lemma collapse_spaces_prefix:
  "\<forall>c \<in> set w. \<not> is_space c \<Longrightarrow> prefix w (collapse_spaces (w @ ss))"
  by (induction w) simp_all

lemma collapse_spaces_word:
  assumes "w \<noteq> []" "\<forall>c \<in> set w. \<not> is_space c"
  shows "sublist w (collapse_spaces (ps @ w @ ss))"
proof (induction ps rule: length_induct)
  case (1 ps)
  show ?case
  proof (cases ps)
    case Nil
    with assms(2) show ?thesis by (simp add: collapse_spaces_prefix prefix_imp_sublist)
  next
    case (Cons c cs)
    show ?thesis
    proof (cases "is_space c")
      case True
      have "length (dropWhile is_space cs) < length ps"
        using Cons length_dropWhile_le [of is_space cs] by simp
      with 1 have "sublist w (collapse_spaces (dropWhile is_space cs @ w @ ss))" by blast
      then have "sublist w (collapse_spaces (dropWhile is_space (cs @ w @ ss)))"
        using assms by (simp add: dropWhile_before_word)
      with True Cons show ?thesis by (simp add: sublist_Cons_right)
    next
      case False
      from Cons 1 have "sublist w (collapse_spaces (cs @ w @ ss))" by simp
      with False Cons show ?thesis by (simp add: sublist_Cons_right)
    qed
  qed
qed

lemma collapse_spaces_sublist:
  assumes "w \<noteq> []" "\<forall>c \<in> set w. \<not> is_space c" "sublist w s"
  shows "sublist w (collapse_spaces s)"
proof -
  from assms(3) obtain ps ss where "s = ps @ w @ ss" unfolding sublist_def by blast
  with assms(1,2) show ?thesis by (simp add: collapse_spaces_word)
qed

lemma prepare_names:
  "prepare g = Inr a \<Longrightarrow>
     searchName a = trim (collapse_spaces (strip_marks (lowerName a)))"
  by (auto simp: prepare_def split: option.splits)

lemma plain_word_normalized:
  assumes "prepare g = Inr a" "js_includes (lowerName a) w"
    and "w \<noteq> []" "\<forall>c \<in> set w. \<not> is_space c"
    and "\<forall>c \<in> set w. c \<noteq> 174 \<and> c \<noteq> 8482 \<and> c \<noteq> 169 \<and> c \<noteq> 58"
  shows "js_includes (searchName a) w"
proof -
  from assms(2,5) have "sublist w (strip_marks (lowerName a))"
    unfolding js_includes_def by (rule strip_marks_sublist)
  with assms(3,4) have "sublist w (collapse_spaces (strip_marks (lowerName a)))"
    by (rule collapse_spaces_sublist)
  with assms(3,4) have "sublist w (trim (collapse_spaces (strip_marks (lowerName a))))"
    by (rule trim_sublist)
  with assms(1) show ?thesis by (simp add: prepare_names js_includes_def)
qed

subsection \<open>The filter on the words of the query\<close>

lemma alyx_prepared:
  "prepare \<lparr>raw_appid = 546560, raw_name = Some (js ''Half-Life: Alyx'')\<rparr> = Inr alyx"
  by (simp add: prepare_def alyx_def toLowerCase_def lower_unit_def js_def strip_marks_def
      is_space_def SPACE_def trim_def)

lemma alyx_lower: "toLowerCase (js ''Half-Life: Alyx'') = js ''half-life: alyx''"
  by (simp add: toLowerCase_def js_def lower_unit_def)

lemma alyx_words: "query_words (js ''half-life: alyx'') = [js ''half-life:'', js ''alyx'']"
  by (simp add: query_words_def js_def is_space_def)

lemma alyx_ranked:
  "rank_results (js ''Half-Life: Alyx'') [\<lparr>item = alyx, score = Some (1 / 10)\<rparr>]
     = [\<lparr>hit = alyx, relevanceScore = 100000\<rparr>]"
proof -
  have "rank_results (js ''Half-Life: Alyx'') [\<lparr>item = alyx, score = Some (1 / 10)\<rparr>]
          = take 100 (map (\<lambda>r. \<lparr>hit = item r, relevanceScore = 100000\<rparr>)
                        [\<lparr>item = alyx, score = Some (1 / 10)\<rparr>])"
    by (intro all_exact_ranked) (simp add: alyx_lower alyx_def num_or_def)
  then show ?thesis by simp
qed

text \<open>
  C3, as amended.  For a query of at least two words, every candidate kept in the result
  set of \<open>/games/search\<close> contains every lowercased word of the query as a substring of
  its lowercased name (\<open>lowerName\<close>: the name in lower case, its symbols and white space
  as they are), whatever its fuzzy quality is; and, for an entry that \<open>prepareApps\<close> has
  prepared, as a substring of its normalized name too when the word holds none of the
  stripped symbols (registered sign, trade mark sign, copyright sign, colon).
\<close>

theorem multi_word_filter:
  assumes "1 < length (query_words (toLowerCase query))"
    and "h \<in> set (rank_results query results)"
    and "w \<in> set (query_words (toLowerCase query))"
  shows "js_includes (lowerName (hit h)) w
         \<and> ((\<exists>g. prepare g = Inr (hit h))
              \<and> (\<forall>c \<in> set w. c \<noteq> 174 \<and> c \<noteq> 8482 \<and> c \<noteq> 169 \<and> c \<noteq> 58)
            \<longrightarrow> js_includes (searchName (hit h)) w)"
proof -
  from assms(2) obtain r where "keep (query_words (toLowerCase query)) r"
    and "h = score_hit (toLowerCase query) r"
    using rank_results_hits by blast
  with assms(1,3) have l: "js_includes (lowerName (hit h)) w"
    by (simp add: hit_score_hit keep_words)
  from assms(3) have "w \<noteq> []" "\<forall>c \<in> set w. \<not> is_space c"
    using query_words_plain by blast+
  with l show ?thesis
    by (blast intro: plain_word_normalized)
qed

theorem multi_word_filter_witness:
  "1 < length (query_words (toLowerCase (js ''Half-Life: Alyx'')))
   \<and> \<lparr>hit = alyx, relevanceScore = 100000\<rparr>
        \<in> set (rank_results (js ''Half-Life: Alyx'') [\<lparr>item = alyx, score = Some (1 / 10)\<rparr>])
   \<and> js ''alyx'' \<in> set (query_words (toLowerCase (js ''Half-Life: Alyx'')))
   \<and> prepare \<lparr>raw_appid = 546560, raw_name = Some (js ''Half-Life: Alyx'')\<rparr> = Inr alyx
   \<and> js_includes (lowerName alyx) (js ''alyx'')
   \<and> js_includes (searchName alyx) (js ''alyx'')"
proof -
  have a: "1 < length (query_words (toLowerCase (js ''Half-Life: Alyx'')))"
    by (simp add: alyx_lower alyx_words)
  have b: "\<lparr>hit = alyx, relevanceScore = 100000\<rparr>
        \<in> set (rank_results (js ''Half-Life: Alyx'') [\<lparr>item = alyx, score = Some (1 / 10)\<rparr>])"
    by (simp add: alyx_ranked)
  have c: "js ''alyx'' \<in> set (query_words (toLowerCase (js ''Half-Life: Alyx'')))"
    by (simp add: alyx_lower alyx_words)
  have d: "\<forall>c \<in> set (js ''alyx''). c \<noteq> 174 \<and> c \<noteq> 8482 \<and> c \<noteq> 169 \<and> c \<noteq> 58"
    by (simp add: js_def)
  have e: "\<exists>g. prepare g = Inr (hit \<lparr>hit = alyx, relevanceScore = 100000\<rparr>)"
    using alyx_prepared by auto
  show ?thesis
    using a b c d e multi_word_filter [OF a b c] alyx_prepared by simp
qed

text \<open>
  C3, as stated, fails for a word of the query that holds one of the stripped symbols:
  for the query \<open>Half-Life: Alyx\<close> the entry of that name is kept, and its normalized
  name \<open>half-life alyx\<close> does not contain the word \<open>half-life:\<close>.
\<close>

theorem multi_word_filter_counterexample:
  "prepare \<lparr>raw_appid = 546560, raw_name = Some (js ''Half-Life: Alyx'')\<rparr> = Inr alyx
   \<and> query_words (toLowerCase (js ''Half-Life: Alyx'')) = [js ''half-life:'', js ''alyx'']
   \<and> rank_results (js ''Half-Life: Alyx'') [\<lparr>item = alyx, score = Some (1 / 10)\<rparr>]
       = [\<lparr>hit = alyx, relevanceScore = 100000\<rparr>]
   \<and> \<not> js_includes (searchName alyx) (js ''half-life:'')"
proof -
  have "\<not> js_includes (searchName alyx) (js ''half-life:'')"
    unfolding alyx_def by code_simp
  then show ?thesis
    by (simp add: alyx_prepared alyx_lower alyx_words alyx_ranked)
qed

section \<open>Properties of the cache of the assets\<close>




text \<open>After a failure other than 404 (here the status 401) the function does write: the
  empty list, with the lifetime 0.  The revision before wrote nothing on these failures.
  What a cache does with an entry of the lifetime 0 is the matter of the cache library,
  which is no part of the repository.\<close>

lemma other_failure_writes_entry:
  "fetchSteamGridAssets (sample_grid (Inl (HttpError 401)) (Inl NoResponse))
     Map.empty 0 546560 Logos
   = ([], [(Logos, 546560) \<mapsto> \<lparr>val = [], stored = 0, ttl = 0\<rparr>])"
  by (simp add: fetchSteamGridAssets_def sample_grid_def cache_get_def cache_set_def
      error_ttl_def Let_def)

section \<open>Properties of the catalog\<close>

lemma activate_fields:
  "steamApps (activate apps s) = apps" "fuseInstance (activate apps s) = Some apps"
  "appListReady (activate apps s)"
  by (simp_all add: activate_def createFuseIndex_def)

text \<open>
  C5, as amended.  A load or refresh of the catalog never throws to its caller.  If
  the snapshot path and the fetch path both fail, the ready flag is false afterwards.
  If the snapshot path fails and the fetch path fails before it has activated the new
  list (the request fails, or the list cannot be prepared), \<open>steamApps\<close> and the index
  are unchanged.  And a catalog is only ever replaced as a whole: afterwards
  \<open>steamApps\<close> and the index are either the previous ones, or a completely prepared
  list (of the snapshot or of the catalog source) and the index built from it; the
  latter is also what a failure to write the snapshot leaves, with the ready flag
  false, and what every successful load leaves, with the ready flag true.
\<close>

theorem initAppList_failure:
  "\<exists>s'. initAppList io s = Inr s'
     \<and> (isl (snapshot_path io s) \<and> fst (fetch_path io s) \<noteq> None \<longrightarrow> \<not> appListReady s')
     \<and> (isl (snapshot_path io s)
          \<and> (app_list_response io = None
               \<or> (\<exists>raw. app_list_response io = Some raw \<and> isl (prepareApps raw)))
         \<longrightarrow> steamApps s' = steamApps s \<and> fuseInstance s' = fuseInstance s
             \<and> \<not> appListReady s')
     \<and> (\<forall>raw apps. isl (snapshot_path io s) \<and> app_list_response io = Some raw
            \<and> prepareApps raw = Inr apps \<and> \<not> write_ok io
         \<longrightarrow> steamApps s' = apps \<and> fuseInstance s' = Some apps \<and> \<not> appListReady s')
     \<and> (\<forall>raw apps. isl (snapshot_path io s) \<and> app_list_response io = Some raw
            \<and> prepareApps raw = Inr apps \<and> write_ok io
         \<longrightarrow> steamApps s' = apps \<and> fuseInstance s' = Some apps \<and> appListReady s')
     \<and> (\<forall>raw apps. snapshot_file io = Some raw \<and> prepareApps raw = Inr apps
         \<longrightarrow> steamApps s' = apps \<and> fuseInstance s' = Some apps \<and> appListReady s')
     \<and> ((steamApps s' = steamApps s \<and> fuseInstance s' = fuseInstance s)
         \<or> (\<exists>raw. (snapshot_file io = Some raw \<or> app_list_response io = Some raw)
                \<and> prepareApps raw = Inr (steamApps s')
                \<and> fuseInstance s' = Some (steamApps s')))"
  by (auto simp: initAppList_def snapshot_path_def fetch_path_def activate_fields
      split: sum.splits option.splits prod.splits if_splits)

theorem initAppList_failure_witness:
  "isl (snapshot_path offline (sample_server 2))
   \<and> fst (fetch_path offline (sample_server 2)) \<noteq> None
   \<and> app_list_response offline = None
   \<and> \<not> isl (initAppList offline (sample_server 2))
   \<and> steamApps (projr (initAppList offline (sample_server 2))) = steamApps (sample_server 2)
   \<and> fuseInstance (projr (initAppList offline (sample_server 2)))
       = fuseInstance (sample_server 2)
   \<and> \<not> appListReady (projr (initAppList offline (sample_server 2)))
   \<and> isl (snapshot_path read_only_disk (sample_server 2))
   \<and> \<not> write_ok read_only_disk
   \<and> steamApps (projr (initAppList read_only_disk (sample_server 2))) = [alyx]
   \<and> fuseInstance (projr (initAppList read_only_disk (sample_server 2))) = Some [alyx]
   \<and> \<not> appListReady (projr (initAppList read_only_disk (sample_server 2)))
   \<and> write_ok (read_only_disk\<lparr>write_ok := True\<rparr>)
   \<and> steamApps (projr (initAppList (read_only_disk\<lparr>write_ok := True\<rparr>) (sample_server 2)))
       = [alyx]
   \<and> appListReady (projr (initAppList (read_only_disk\<lparr>write_ok := True\<rparr>) (sample_server 2)))
   \<and> steamApps (projr (initAppList
         (offline\<lparr>snapshot_file := app_list_response read_only_disk\<rparr>) (sample_server 2)))
       = [alyx]
   \<and> appListReady (projr (initAppList
         (offline\<lparr>snapshot_file := app_list_response read_only_disk\<rparr>) (sample_server 2)))"
proof -
  have p: "prepareApps [\<lparr>raw_appid = 546560, raw_name = Some (js ''Half-Life: Alyx'')\<rparr>]
             = Inr [alyx]"
    by (simp add: alyx_prepared)
  have a: "isl (snapshot_path offline (sample_server 2))"
    "fst (fetch_path offline (sample_server 2)) \<noteq> None"
    "app_list_response offline = None"
    by (simp_all add: snapshot_path_def fetch_path_def offline_def)
  from initAppList_failure [of offline "sample_server 2"] a
  obtain s1 where s1: "initAppList offline (sample_server 2) = Inr s1"
    "steamApps s1 = steamApps (sample_server 2)"
    "fuseInstance s1 = fuseInstance (sample_server 2)" "\<not> appListReady s1"
    by blast
  have b: "isl (snapshot_path read_only_disk (sample_server 2))"
    "app_list_response read_only_disk
       = Some [\<lparr>raw_appid = 546560, raw_name = Some (js ''Half-Life: Alyx'')\<rparr>]"
    "\<not> write_ok read_only_disk"
    by (simp_all add: snapshot_path_def read_only_disk_def)
  from initAppList_failure [of read_only_disk "sample_server 2"] b p
  obtain s2 where s2: "initAppList read_only_disk (sample_server 2) = Inr s2"
    "steamApps s2 = [alyx]" "fuseInstance s2 = Some [alyx]" "\<not> appListReady s2"
    by blast
  have c: "isl (snapshot_path (read_only_disk\<lparr>write_ok := True\<rparr>) (sample_server 2))"
    "app_list_response (read_only_disk\<lparr>write_ok := True\<rparr>)
       = Some [\<lparr>raw_appid = 546560, raw_name = Some (js ''Half-Life: Alyx'')\<rparr>]"
    "write_ok (read_only_disk\<lparr>write_ok := True\<rparr>)"
    by (simp_all add: snapshot_path_def read_only_disk_def)
  from initAppList_failure [of "read_only_disk\<lparr>write_ok := True\<rparr>" "sample_server 2"] c p
  obtain s3 where s3: "initAppList (read_only_disk\<lparr>write_ok := True\<rparr>) (sample_server 2) = Inr s3"
    "steamApps s3 = [alyx]" "appListReady s3"
    by blast
  have d: "snapshot_file (offline\<lparr>snapshot_file := app_list_response read_only_disk\<rparr>)
       = Some [\<lparr>raw_appid = 546560, raw_name = Some (js ''Half-Life: Alyx'')\<rparr>]"
    by (simp add: read_only_disk_def)
  from initAppList_failure
    [of "offline\<lparr>snapshot_file := app_list_response read_only_disk\<rparr>" "sample_server 2"] d p
  obtain s4 where s4: "initAppList (offline\<lparr>snapshot_file := app_list_response read_only_disk\<rparr>)
       (sample_server 2) = Inr s4"
    "steamApps s4 = [alyx]" "appListReady s4"
    by blast
  from a b c s1 s2 s3 s4 show ?thesis by simp
qed

text \<open>
  C5, as stated, fails where the fetch path fails at its last step: without a snapshot,
  with an answer of the catalog source and a disk that cannot be written, both paths
  fail, the ready flag is false, and yet \<open>steamApps\<close> is the new list.
\<close>

theorem initAppList_write_failure_counterexample:
  "isl (snapshot_path read_only_disk (sample_server 1))
   \<and> fst (fetch_path read_only_disk (sample_server 1)) = Some WriteFailed
   \<and> initAppList read_only_disk (sample_server 1)
       = Inr \<lparr>steamApps = [alyx], fuseInstance = Some [alyx], appListReady = False\<rparr>
   \<and> steamApps (sample_server 1) = [sample_app 0]
   \<and> sample_app 0 \<noteq> alyx"
  by (simp add: initAppList_def snapshot_path_def fetch_path_def read_only_disk_def
      alyx_prepared activate_def createFuseIndex_def sample_server_def)
    (simp add: sample_app_def alyx_def)

section \<open>Properties of get-or-compute\<close>

lemma cache_get_fresh:
  "cache_get (cache_set c now k v None) now k = Some v"
  by (simp add: cache_get_def cache_set_def live_def stdTTL_def)

text \<open>
  C7, as amended.  For every key and compute function, get-or-compute returns the value
  of a live cached entry without invoking the compute function when that value is
  truthy.  Otherwise (no live entry for the key, or a live entry with a falsy value
  such as \<open>null\<close>, \<open>0\<close>, \<open>false\<close> or the empty string) it invokes the compute function
  once: on success it stores the result under the key, where it is live at once, and
  returns it; on failure it stores nothing and the failure is the outcome.
\<close>

theorem getCachedOrFetch_contract:
  "(\<forall>v. cache_get c now key = Some v \<and> truthy v \<longrightarrow>
        getCachedOrFetch c now key fetchFn = (Inr v, c, 0))
   \<and> (\<forall>d. (cache_get c now key = None \<or> (\<exists>v. cache_get c now key = Some v \<and> \<not> truthy v))
          \<and> fetchFn () = Inr d \<longrightarrow>
        getCachedOrFetch c now key fetchFn = (Inr d, cache_set c now key d None, 1)
        \<and> cache_get (cache_set c now key d None) now key = Some d)
   \<and> (\<forall>e. (cache_get c now key = None \<or> (\<exists>v. cache_get c now key = Some v \<and> \<not> truthy v))
          \<and> fetchFn () = Inl e \<longrightarrow>
        getCachedOrFetch c now key fetchFn = (Inl e, c, 1))"
  by (cases "cache_get c now key") (auto simp: getCachedOrFetch_def cache_get_fresh Let_def)

theorem getCachedOrFetch_contract_witness:
  "getCachedOrFetch Map.empty 0 (js ''featuredCategories'') (\<lambda>_. Inr (JObj []))
     = (Inr (JObj []), cache_set Map.empty 0 (js ''featuredCategories'') (JObj []) None, 1)
   \<and> cache_get (cache_set Map.empty 0 (js ''featuredCategories'') (JObj []) None) 5
        (js ''featuredCategories'') = Some (JObj [])
   \<and> getCachedOrFetch (cache_set Map.empty 0 (js ''featuredCategories'') (JObj []) None) 5
        (js ''featuredCategories'') (\<lambda>_. Inl RequestFailed)
     = (Inr (JObj []), cache_set Map.empty 0 (js ''featuredCategories'') (JObj []) None, 0)
   \<and> getCachedOrFetch Map.empty 0 (js ''featuredCategories'') (\<lambda>_. Inl RequestFailed)
     = (Inl RequestFailed, Map.empty, 1)"
proof -
  have m: "cache_get (Map.empty :: (js_string, json) cache) 0 (js ''featuredCategories'') = None"
    by (simp add: cache_get_def)
  have h: "cache_get (cache_set Map.empty 0 (js ''featuredCategories'') (JObj []) None) 5
        (js ''featuredCategories'') = Some (JObj [])"
    by (simp add: cache_get_def cache_set_def live_def stdTTL_def)
  show ?thesis
    using m h
      getCachedOrFetch_contract [of Map.empty 0 "js ''featuredCategories''"
        "\<lambda>_. Inr (JObj [])"]
      getCachedOrFetch_contract [of
        "cache_set Map.empty 0 (js ''featuredCategories'') (JObj []) None" 5
        "js ''featuredCategories''" "\<lambda>_. Inl RequestFailed"]
      getCachedOrFetch_contract [of Map.empty 0 "js ''featuredCategories''"
        "\<lambda>_. Inl RequestFailed"]
    by simp
qed

text \<open>
  C7, as stated, fails for a live entry with a falsy value: after a compute function
  has returned the empty string, which is stored, the next call finds the live entry
  and invokes the compute function again.
\<close>

theorem getCachedOrFetch_falsy_counterexample:
  "getCachedOrFetch Map.empty 0 (js ''featuredCategories'') (\<lambda>_. Inr (JStr []))
     = (Inr (JStr []), cache_set Map.empty 0 (js ''featuredCategories'') (JStr []) None, 1)
   \<and> cache_get (cache_set Map.empty 0 (js ''featuredCategories'') (JStr []) None) 5
        (js ''featuredCategories'') = Some (JStr [])
   \<and> snd (snd (getCachedOrFetch
        (cache_set Map.empty 0 (js ''featuredCategories'') (JStr []) None) 5
        (js ''featuredCategories'') (\<lambda>_. Inr (JStr [])))) = 1"
  by (simp add: getCachedOrFetch_def cache_get_def cache_set_def live_def stdTTL_def Let_def)

end
